theory Spec2Isabelle
  imports Main "HOL-Library.Multiset"
begin

section \<open>Time values and the ISO-8601 text form\<close>

text \<open>
  The scripts keep every timestamp as a string and read it back with \<open>new Date(s)\<close>.
  A time value is the number of milliseconds since 1970-01-01T00:00:00Z; \<open>None\<close> stands
  for the time value \<open>NaN\<close> of an Invalid Date.  The calendar functions below are the ones
  of the ECMAScript specification (Day, TimeWithinDay, YearFromTime, MonthFromTime,
  DateFromTime, HourFromTime, ...), computed from the day number in closed form.
\<close>

definition msPerDay :: int where
  "msPerDay = 86400000"

definition Day :: "int \<Rightarrow> int" where
  "Day t = t div msPerDay"

definition TimeWithinDay :: "int \<Rightarrow> int" where
  "TimeWithinDay t = t mod msPerDay"

text \<open>Year, month (1..12) and day of the month (1..31) of a day number.\<close>

definition civil_from_days :: "int \<Rightarrow> int \<times> int \<times> int" where
  "civil_from_days z =
     (let z' = z + 719468;
          era = z' div 146097;
          doe = z' - era * 146097;
          yoe = (doe - doe div 1460 + doe div 36524 - doe div 146096) div 365;
          doy = doe - (365 * yoe + yoe div 4 - yoe div 100);
          mp = (5 * doy + 2) div 153;
          d = doy - (153 * mp + 2) div 5 + 1;
          m = (if mp < 10 then mp + 3 else mp - 9);
          y = yoe + era * 400
      in (if m \<le> 2 then y + 1 else y, m, d))"

text \<open>The day number of a year, month (1..12) and day; a day past the end of the month
  runs on into the next one, as MakeDay does.\<close>

definition days_from_civil :: "int \<Rightarrow> int \<Rightarrow> int \<Rightarrow> int" where
  "days_from_civil y m d =
     (let y' = (if m \<le> 2 then y - 1 else y);
          era = y' div 400;
          yoe = y' - era * 400;
          doy = (153 * (if m > 2 then m - 3 else m + 9) + 2) div 5 + d - 1;
          doe = yoe * 365 + yoe div 4 - yoe div 100 + doy
      in era * 146097 + doe - 719468)"

definition YearFromTime :: "int \<Rightarrow> int" where
  "YearFromTime t = fst (civil_from_days (Day t))"

definition MonthFromTime :: "int \<Rightarrow> int" where
  "MonthFromTime t = fst (snd (civil_from_days (Day t))) - 1"

definition DateFromTime :: "int \<Rightarrow> int" where
  "DateFromTime t = snd (snd (civil_from_days (Day t)))"

definition HourFromTime :: "int \<Rightarrow> int" where
  "HourFromTime t = (t div 3600000) mod 24"

definition MinFromTime :: "int \<Rightarrow> int" where
  "MinFromTime t = (t div 60000) mod 60"

definition SecFromTime :: "int \<Rightarrow> int" where
  "SecFromTime t = (t div 1000) mod 60"

definition msFromTime :: "int \<Rightarrow> int" where
  "msFromTime t = t mod 1000"

subsection \<open>Decimal digits\<close>

definition digit_val :: "char \<Rightarrow> int option" where
  "digit_val c =
     (let n = (of_char c :: int) in if 48 \<le> n \<and> n \<le> 57 then Some (n - 48) else None)"

fun digits_val :: "int \<Rightarrow> string \<Rightarrow> int option" where
  "digits_val acc [] = Some acc"
| "digits_val acc (c # cs) =
     (case digit_val c of None \<Rightarrow> None | Some d \<Rightarrow> digits_val (10 * acc + d) cs)"

definition digit_char :: "nat \<Rightarrow> char" where
  "digit_char n = char_of (48 + n)"

fun string_of_nat :: "nat \<Rightarrow> string" where
  "string_of_nat n =
     (if n < 10 then [digit_char n] else string_of_nat (n div 10) @ [digit_char (n mod 10)])"

declare string_of_nat.simps [simp del]

text \<open>\<open>String(n)\<close> for an integer.\<close>

definition String_int :: "int \<Rightarrow> string" where
  "String_int i = (if i < 0 then CHR ''-'' # string_of_nat (nat (- i)) else string_of_nat (nat i))"

text \<open>\<open>s.padStart(n, '0')\<close>.\<close>

definition padStart0 :: "nat \<Rightarrow> string \<Rightarrow> string" where
  "padStart0 n s = replicate (n - length s) (CHR ''0'') @ s"

subsection \<open>Reading and writing the text form\<close>

text \<open>
  \<open>new Date(s).getTime()\<close> for a string.  Modelled: the ECMAScript date-time string format
  with the UTC designator, \<open>YYYY-MM-DDTHH:mm:ssZ\<close> and \<open>YYYY-MM-DDTHH:mm:ss.sssZ\<close>, which is
  what \<open>toISOString\<close> writes and what the stores hold.  As in V8 the day is accepted up to
  31 in every month and \<open>24:00:00\<close> is the end of the day.  Every other string is taken to
  be an Invalid Date; the engine's fallback for other date notations is not modelled.
\<close>

definition fraction_Z :: "string \<Rightarrow> int option" where
  "fraction_Z r =
     (if r = ''Z'' then Some 0
      else if length r = 5 \<and> r ! 0 = CHR ''.'' \<and> r ! 4 = CHR ''Z''
        then digits_val 0 (take 3 (drop 1 r))
      else None)"

definition Date_parse :: "string \<Rightarrow> int option" where
  "Date_parse s =
     (if 20 \<le> length s \<and> s ! 4 = CHR ''-'' \<and> s ! 7 = CHR ''-'' \<and> s ! 10 = CHR ''T''
         \<and> s ! 13 = CHR '':'' \<and> s ! 16 = CHR '':''
      then
        (case (digits_val 0 (take 4 s), digits_val 0 (take 2 (drop 5 s)),
               digits_val 0 (take 2 (drop 8 s)), digits_val 0 (take 2 (drop 11 s)),
               digits_val 0 (take 2 (drop 14 s)), digits_val 0 (take 2 (drop 17 s)),
               fraction_Z (drop 19 s)) of
           (Some y, Some mo, Some d, Some h, Some mi, Some sec, Some ms) \<Rightarrow>
             if 1 \<le> mo \<and> mo \<le> 12 \<and> 1 \<le> d \<and> d \<le> 31 \<and> mi \<le> 59 \<and> sec \<le> 59
                \<and> (h \<le> 23 \<or> (h = 24 \<and> mi = 0 \<and> sec = 0 \<and> ms = 0))
             then Some (days_from_civil y mo d * msPerDay + h * 3600000 + mi * 60000 + sec * 1000 + ms)
             else None
         | _ \<Rightarrow> None)
      else None)"

text \<open>\<open>new Date(t).toISOString()\<close> for a valid time value \<open>t\<close>.\<close>

definition toISOString :: "int \<Rightarrow> string" where
  "toISOString t =
     (let y = YearFromTime t;
          ys = (if 0 \<le> y \<and> y \<le> 9999 then padStart0 4 (string_of_nat (nat y))
                else (if y < 0 then CHR ''-'' else CHR ''+'') # padStart0 6 (string_of_nat (nat \<bar>y\<bar>)))
      in ys @ ''-'' @ padStart0 2 (String_int (MonthFromTime t + 1))
            @ ''-'' @ padStart0 2 (String_int (DateFromTime t))
            @ ''T'' @ padStart0 2 (String_int (HourFromTime t))
            @ '':'' @ padStart0 2 (String_int (MinFromTime t))
            @ '':'' @ padStart0 2 (String_int (SecFromTime t))
            @ ''.'' @ padStart0 3 (String_int (msFromTime t)) @ ''Z'')"

text \<open>\<open>getMonthKey\<close>: the \<open>YYYY-MM\<close> key of a timestamp; an Invalid Date gives
  \<open>NaN-NaN\<close>, since both \<open>getUTCFullYear()\<close> and \<open>getUTCMonth() + 1\<close> are \<open>NaN\<close>.\<close>

definition getMonthKey :: "string \<Rightarrow> string" where
  "getMonthKey ts =
     (case Date_parse ts of
        None \<Rightarrow> ''NaN-NaN''
      | Some t \<Rightarrow> String_int (YearFromTime t) @ ''-'' @ padStart0 2 (String_int (MonthFromTime t + 1)))"


section \<open>Numbers read from text\<close>

text \<open>
  \<open>parseFloat\<close> decides whether a rate is accepted; only the class of its result matters
  to the scripts (\<open>isNaN\<close>, \<open>isFinite\<close>), so the model returns the class.  The string is
  read as the specification says: leading white space is dropped, then the longest prefix
  that is a decimal literal is taken; a literal whose value rounds to a magnitude of
  \<open>2^1024\<close> or more is an infinity.
\<close>

datatype numclass = NaN | PosInfinity | NegInfinity | Finite

definition isNaN :: "numclass \<Rightarrow> bool" where
  "isNaN n = (n = NaN)"

definition isFinite :: "numclass \<Rightarrow> bool" where
  "isFinite n = (n = Finite)"

definition is_space :: "char \<Rightarrow> bool" where
  "is_space c = ((of_char c :: int) \<in> {9, 10, 11, 12, 13, 32})"

definition is_digit :: "char \<Rightarrow> bool" where
  "is_digit c = (digit_val c \<noteq> None)"

text \<open>The exponent part \<open>e\<close>, optional sign, digits; 0 when there is none.\<close>

definition exponent_part :: "string \<Rightarrow> int" where
  "exponent_part r =
     (case r of
        [] \<Rightarrow> 0
      | c # r1 \<Rightarrow>
          if c = CHR ''e'' \<or> c = CHR ''E'' then
            (let neg = (r1 \<noteq> [] \<and> hd r1 = CHR ''-'');
                 r2 = (if r1 \<noteq> [] \<and> (hd r1 = CHR ''-'' \<or> hd r1 = CHR ''+'') then tl r1 else r1);
                 ds = takeWhile is_digit r2
             in if ds = [] then 0
                else (let v = the (digits_val 0 ds) in if neg then - v else v))
          else 0)"

text \<open>Whether \<open>m * 10^e\<close> rounds to an infinity: the threshold is \<open>2^1024 - 2^970\<close>.\<close>

definition overflows :: "int \<Rightarrow> int \<Rightarrow> bool" where
  "overflows m e =
     (if 0 \<le> e then 2 ^ 1024 - 2 ^ 970 \<le> m * 10 ^ nat e
      else (2 ^ 1024 - 2 ^ 970) * 10 ^ nat (- e) \<le> m)"

definition parseFloat :: "string \<Rightarrow> numclass" where
  "parseFloat s =
     (let t = dropWhile is_space s;
          neg = (t \<noteq> [] \<and> hd t = CHR ''-'');
          u = (if t \<noteq> [] \<and> (hd t = CHR ''-'' \<or> hd t = CHR ''+'') then tl t else t)
      in if take 8 u = ''Infinity'' then (if neg then NegInfinity else PosInfinity)
         else
           (let ip = takeWhile is_digit u;
                r1 = dropWhile is_digit u;
                fp = (if r1 \<noteq> [] \<and> hd r1 = CHR ''.'' then takeWhile is_digit (tl r1) else []);
                r2 = (if r1 \<noteq> [] \<and> hd r1 = CHR ''.'' then dropWhile is_digit (tl r1) else r1)
            in if ip = [] \<and> fp = [] then NaN
               else if overflows (the (digits_val 0 (ip @ fp))) (exponent_part r2 - int (length fp))
                 then (if neg then NegInfinity else PosInfinity)
               else Finite))"

text \<open>\<open>parseInt(s)\<close> with no radix: white space, a sign, then decimal digits or, after
  \<open>0x\<close>, hexadecimal ones; \<open>None\<close> is \<open>NaN\<close>.\<close>

definition hex_val :: "char \<Rightarrow> int option" where
  "hex_val c =
     (let n = (of_char c :: int) in
      if 48 \<le> n \<and> n \<le> 57 then Some (n - 48)
      else if 65 \<le> n \<and> n \<le> 70 then Some (n - 55)
      else if 97 \<le> n \<and> n \<le> 102 then Some (n - 87)
      else None)"

definition parseInt :: "string \<Rightarrow> int option" where
  "parseInt s =
     (let t = dropWhile is_space s;
          neg = (t \<noteq> [] \<and> hd t = CHR ''-'');
          u = (if t \<noteq> [] \<and> (hd t = CHR ''-'' \<or> hd t = CHR ''+'') then tl t else t);
          hex = (take 2 u = ''0x'' \<or> take 2 u = ''0X'');
          ds = (if hex then takeWhile (\<lambda>c. hex_val c \<noteq> None) (drop 2 u) else takeWhile is_digit u);
          v = (if hex then foldl (\<lambda>a c. 16 * a + the (hex_val c)) 0 ds else the (digits_val 0 ds))
      in if ds = [] then None else Some (if neg then - v else v))"

section \<open>The stores\<close>

record RateRecord =
  timestamp :: string
  preRate :: string

text \<open>
  A CSV file is modelled by the rows below its header line \<open>timestamp,preRate\<close>: a file
  that holds only the header is \<open>Some []\<close>, a missing file is \<open>None\<close>.  The text layer of
  \<open>csv-parser\<close> and \<open>csv-writer\<close> (quoting, line ends) is not modelled, and the data
  directory is taken to exist.

  Every call that reads or writes a file may fail.  \<open>budget\<close> is the number of such calls
  that still succeed (\<open>None\<close>: all of them do); the call after that throws, which the
  scripts never catch before their outermost handler.  \<open>written\<close> lists the paths of the
  write calls that succeeded, oldest first.
\<close>

datatype error = StorageIOError | TransportError | ValidationError | RangeError

record world =
  files :: "string \<rightharpoonup> RateRecord list"
  written :: "string list"
  budget :: "nat option"

definition io_step :: "world \<Rightarrow> world option" where
  "io_step w =
     (case budget w of
        None \<Rightarrow> Some w
      | Some 0 \<Rightarrow> None
      | Some (Suc n) \<Rightarrow> Some (w\<lparr>budget := Some n\<rparr>))"

definition CSV_PATH :: string where
  "CSV_PATH = ''data/rates.csv''"

definition DATA_DIR :: string where
  "DATA_DIR = ''data''"

definition existsSync :: "string \<Rightarrow> world \<Rightarrow> bool" where
  "existsSync p w = (files w p \<noteq> None)"

text \<open>\<open>fs.writeFileSync(p, 'timestamp,preRate\n')\<close>.\<close>

definition writeFileSync_header :: "string \<Rightarrow> world \<Rightarrow> (error + unit) \<times> world" where
  "writeFileSync_header p w =
     (case io_step w of
        None \<Rightarrow> (Inl StorageIOError, w)
      | Some w1 \<Rightarrow> (Inr (), w1\<lparr>files := (files w1)(p \<mapsto> []), written := written w1 @ [p]\<rparr>))"

text \<open>\<open>fs.writeFileSync(p, header + rows)\<close>.\<close>

definition writeFileSync_rows :: "string \<Rightarrow> RateRecord list \<Rightarrow> world \<Rightarrow> (error + unit) \<times> world" where
  "writeFileSync_rows p rows w =
     (case io_step w of
        None \<Rightarrow> (Inl StorageIOError, w)
      | Some w1 \<Rightarrow> (Inr (), w1\<lparr>files := (files w1)(p \<mapsto> rows), written := written w1 @ [p]\<rparr>))"

text \<open>\<open>csvWriter.writeRecords(data)\<close> of a writer made for path \<open>p\<close>: without \<open>append\<close> (here \<open>appending\<close>) it
  replaces the file by the header and the rows, with \<open>append\<close> it adds the rows at the end.\<close>

definition writeRecords :: "string \<Rightarrow> bool \<Rightarrow> RateRecord list \<Rightarrow> world \<Rightarrow> (error + unit) \<times> world" where
  "writeRecords p appending rows w =
     (case io_step w of
        None \<Rightarrow> (Inl StorageIOError, w)
      | Some w1 \<Rightarrow>
          (Inr (), w1\<lparr>files := (files w1)(p \<mapsto>
                          (if appending then (case files w1 p of None \<Rightarrow> [] | Some old \<Rightarrow> old) @ rows
                           else rows)),
                       written := written w1 @ [p]\<rparr>))"

text \<open>\<open>fs.readFileSync(p)\<close>, as the rows it holds; a missing file throws.\<close>

definition readFileSync :: "string \<Rightarrow> world \<Rightarrow> (error + RateRecord list) \<times> world" where
  "readFileSync p w =
     (case files w p of
        None \<Rightarrow> (Inl StorageIOError, w)
      | Some rows \<Rightarrow>
          (case io_step w of
             None \<Rightarrow> (Inl StorageIOError, w)
           | Some w1 \<Rightarrow> (Inr rows, w1)))"

subsection \<open>readCsvData and writeCsvData\<close>

definition readCsvData :: "string \<Rightarrow> world \<Rightarrow> (error + RateRecord list) \<times> world" where
  "readCsvData filePath w =
     (if \<not> existsSync filePath w then (Inr [], w)
      else
        (case io_step w of
           None \<Rightarrow> (Inl StorageIOError, w)
         | Some w1 \<Rightarrow>
             (Inr (map (\<lambda>row. \<lparr>timestamp = timestamp row, preRate = preRate row\<rparr>)
                       (case files w1 filePath of None \<Rightarrow> [] | Some rows \<Rightarrow> rows)), w1)))"

definition writeCsvData :: "string \<Rightarrow> RateRecord list \<Rightarrow> bool \<Rightarrow> world \<Rightarrow> (error + unit) \<times> world" where
  "writeCsvData filePath data appending w =
     (if data = [] then (Inr (), w)
      else if \<not> appending then
        (case writeFileSync_header filePath w of
           (Inl e, w1) \<Rightarrow> (Inl e, w1)
         | (Inr _, w1) \<Rightarrow> writeRecords filePath appending data w1)
      else writeRecords filePath appending data w)"

subsection \<open>Sorting by time\<close>

text \<open>
  \<open>xs.sort((a, b) => new Date(a.timestamp).getTime() - new Date(b.timestamp).getTime())\<close>.
  The comparator's result is \<open>None\<close> (\<open>NaN\<close>) when either date is invalid, which
  \<open>sort\<close> takes as 0.  The sort is stable: an element moves behind another one only when
  the comparator puts it strictly after.
\<close>

definition compare_time :: "RateRecord \<Rightarrow> RateRecord \<Rightarrow> int option" where
  "compare_time a b =
     (case (Date_parse (timestamp a), Date_parse (timestamp b)) of
        (Some x, Some y) \<Rightarrow> Some (x - y)
      | _ \<Rightarrow> None)"

fun insert_by :: "('a \<Rightarrow> 'a \<Rightarrow> int option) \<Rightarrow> 'a \<Rightarrow> 'a list \<Rightarrow> 'a list" where
  "insert_by c x [] = [x]"
| "insert_by c x (y # ys) =
     (if (case c x y of None \<Rightarrow> False | Some v \<Rightarrow> 0 < v) then y # insert_by c x ys
      else x # y # ys)"

definition sort_by :: "('a \<Rightarrow> 'a \<Rightarrow> int option) \<Rightarrow> 'a list \<Rightarrow> 'a list" where
  "sort_by c xs = foldr (insert_by c) xs []"

definition sort_by_time :: "RateRecord list \<Rightarrow> RateRecord list" where
  "sort_by_time xs = sort_by compare_time xs"

text \<open>Non-decreasing by timestamp, every timestamp being a valid date.\<close>

definition time_le :: "RateRecord \<Rightarrow> RateRecord \<Rightarrow> bool" where
  "time_le a b =
     (case (Date_parse (timestamp a), Date_parse (timestamp b)) of
        (Some x, Some y) \<Rightarrow> x \<le> y
      | _ \<Rightarrow> False)"

definition valid_time :: "RateRecord \<Rightarrow> bool" where
  "valid_time r = (Date_parse (timestamp r) \<noteq> None)"

definition ascending :: "RateRecord list \<Rightarrow> bool" where
  "ascending rs = (list_all valid_time rs \<and> sorted_wrt time_le rs)"

section \<open>Rollover\<close>

text \<open>The \<open>Map\<close> from month key to records, in insertion order: \<open>push_month\<close> is the body
  of the grouping loop (\<open>has\<close>, \<open>set\<close>, \<open>get(...).push\<close>).\<close>

fun push_month :: "string \<Rightarrow> RateRecord \<Rightarrow> (string \<times> RateRecord list) list \<Rightarrow> (string \<times> RateRecord list) list" where
  "push_month k r [] = [(k, [r])]"
| "push_month k r ((k', rs) # m) =
     (if k' = k then (k', rs @ [r]) # m else (k', rs) # push_month k r m)"

definition group_by_month :: "RateRecord list \<Rightarrow> (string \<times> RateRecord list) list" where
  "group_by_month existingData =
     foldl (\<lambda>dataByMonth record. push_month (getMonthKey (timestamp record)) record dataByMonth)
       [] existingData"

definition archiveFilePath :: "string \<Rightarrow> string" where
  "archiveFilePath monthKey = DATA_DIR @ ''/'' @ monthKey @ ''.csv''"

text \<open>The loop over the months; the result is \<open>hasRollover\<close>.\<close>

fun archive_months :: "string \<Rightarrow> (string \<times> RateRecord list) list \<Rightarrow> bool \<Rightarrow> world \<Rightarrow> (error + bool) \<times> world" where
  "archive_months currentMonthKey [] hasRollover w = (Inr hasRollover, w)"
| "archive_months currentMonthKey ((monthKey, monthData) # rest) hasRollover w =
     (if monthKey \<noteq> currentMonthKey then
        (case writeCsvData (archiveFilePath monthKey) (sort_by_time monthData) False w of
           (Inl e, w1) \<Rightarrow> (Inl e, w1)
         | (Inr _, w1) \<Rightarrow> archive_months currentMonthKey rest True w1)
      else archive_months currentMonthKey rest hasRollover w)"

text \<open>\<open>performRollover\<close>; \<open>now\<close> is the time value of the \<open>new Date()\<close> that gives the
  current month key.\<close>

definition performRollover :: "int \<Rightarrow> world \<Rightarrow> (error + unit) \<times> world" where
  "performRollover now w =
     (if \<not> existsSync CSV_PATH w then (Inr (), w)
      else
        (case readCsvData CSV_PATH w of
           (Inl e, w1) \<Rightarrow> (Inl e, w1)
         | (Inr existingData, w1) \<Rightarrow>
             if existingData = [] then (Inr (), w1)
             else
               (let currentMonthKey = getMonthKey (toISOString now);
                    dataByMonth = group_by_month existingData
                in case archive_months currentMonthKey dataByMonth False w1 of
                     (Inl e, w2) \<Rightarrow> (Inl e, w2)
                   | (Inr hasRollover, w2) \<Rightarrow>
                       if hasRollover then
                         (let currentMonthData =
                                (case map_of dataByMonth currentMonthKey of None \<Rightarrow> [] | Some d \<Rightarrow> d)
                          in if currentMonthData \<noteq> []
                             then writeCsvData CSV_PATH (sort_by_time currentMonthData) False w2
                             else writeFileSync_header CSV_PATH w2)
                       else (Inr (), w2))))"


section \<open>Fetching the latest rate\<close>

text \<open>The answer of an HTTP request: \<open>HttpFailure\<close> when \<open>response.ok\<close> is false or the body
  is not JSON, otherwise the parsed body.\<close>

datatype 'a http = HttpFailure | HttpBody 'a

text \<open>The summary endpoint's body; of each entry of \<open>data\<close> only \<open>preRate\<close> is read.\<close>

record OKXResponse =
  code :: string
  data :: "string list option"

datatype outcome = Written | Skipped

definition getUTCHours :: "int option \<Rightarrow> int option" where
  "getUTCHours d = map_option HourFromTime d"

text \<open>\<open>toDateString()\<close> prints the week day, month, day and year of the date in the local
  time zone; \<open>tza\<close> is the zone's offset from UTC in milliseconds.  The week day follows
  from the other three, so two such strings are equal exactly when month, day and year
  are; \<open>None\<close> is the string \<open>Invalid Date\<close>.\<close>

definition toDateString :: "int \<Rightarrow> int option \<Rightarrow> (int \<times> int \<times> int) option" where
  "toDateString tza d =
     map_option (\<lambda>t. (MonthFromTime (t + tza), DateFromTime (t + tza), YearFromTime (t + tza))) d"

text \<open>The test on the last line of the file; \<open>===\<close> on numbers is false for \<open>NaN\<close>.\<close>

definition same_hour :: "int \<Rightarrow> string \<Rightarrow> string \<Rightarrow> bool" where
  "same_hour tza lastTimestamp ts =
     (let lastHour = getUTCHours (Date_parse lastTimestamp);
          currentHour = getUTCHours (Date_parse ts)
      in lastHour \<noteq> None \<and> lastHour = currentHour
         \<and> toDateString tza (Date_parse lastTimestamp) = toDateString tza (Date_parse ts))"

text \<open>
  The second half of \<open>fetchLendingRate\<close>, from "Check if CSV file exists" on: create the
  file when it is missing, skip when the last line is of the same hour, append otherwise.
  The last line is the last row (\<open>lines.length > 1\<close> says that there is one) and its first
  field is that row's timestamp.
\<close>

definition append_rate :: "int \<Rightarrow> string \<Rightarrow> string \<Rightarrow> world \<Rightarrow> (error + outcome) \<times> world" where
  "append_rate tza ts rate w =
     (case (if \<not> existsSync CSV_PATH w then writeFileSync_header CSV_PATH w else (Inr (), w)) of
        (Inl e, w1) \<Rightarrow> (Inl e, w1)
      | (Inr _, w1) \<Rightarrow>
          (case readFileSync CSV_PATH w1 of
             (Inl e, w2) \<Rightarrow> (Inl e, w2)
           | (Inr rows, w2) \<Rightarrow>
               if rows \<noteq> [] \<and> same_hour tza (timestamp (last rows)) ts then (Inr Skipped, w2)
               else
                 (case writeRecords CSV_PATH True [\<lparr>timestamp = ts, preRate = rate\<rparr>] w2 of
                    (Inl e, w3) \<Rightarrow> (Inl e, w3)
                  | (Inr _, w3) \<Rightarrow> (Inr Written, w3))))"

text \<open>The first half, after the rollover: the request and the validation of its answer.
  \<open>now\<close> is the time value of the \<open>new Date()\<close> that stamps the sample.\<close>

definition fetch_and_append :: "int \<Rightarrow> int \<Rightarrow> OKXResponse http \<Rightarrow> world \<Rightarrow> (error + outcome) \<times> world" where
  "fetch_and_append tza now response w =
     (case response of
        HttpFailure \<Rightarrow> (Inl TransportError, w)
      | HttpBody body \<Rightarrow>
          if code body \<noteq> ''0'' \<or> data body = None \<or> data body = Some [] then (Inl ValidationError, w)
          else
            (let rate = hd (the (data body));
                 preRateNum = parseFloat rate
             in if isNaN preRateNum \<or> \<not> isFinite preRateNum then (Inl ValidationError, w)
                else append_rate tza (toISOString now) rate w))"

text \<open>\<open>fetchLendingRate\<close> of the script with the rollover: \<open>now0\<close> is the clock at the
  rollover, \<open>now\<close> the clock when the sample is stamped.  An \<open>Inl\<close> is the error that the
  handler logs before \<open>process.exit(1)\<close>.\<close>

definition fetchLendingRate :: "int \<Rightarrow> int \<Rightarrow> int \<Rightarrow> OKXResponse http \<Rightarrow> world \<Rightarrow> (error + outcome) \<times> world" where
  "fetchLendingRate tza now0 now response w =
     (case performRollover now0 w of
        (Inl e, w1) \<Rightarrow> (Inl e, w1)
      | (Inr _, w1) \<Rightarrow> fetch_and_append tza now response w1)"

text \<open>\<open>fetchLendingRate\<close> of \<open>src/fetchRate.ts\<close>, which has no rollover.\<close>

definition fetchRate_fetchLendingRate :: "int \<Rightarrow> int \<Rightarrow> OKXResponse http \<Rightarrow> world \<Rightarrow> (error + outcome) \<times> world" where
  "fetchRate_fetchLendingRate tza now response w = fetch_and_append tza now response w"

section \<open>Fetching the history of the month\<close>

record HistoryEntry =
  ts :: string
  rate :: string

record OKXHistoryResponse =
  hcode :: string
  hdata :: "HistoryEntry list option"

text \<open>\<open>new Date(n).toISOString()\<close> for a number: a \<open>NaN\<close> or a value outside the range of
  time values gives an Invalid Date, on which \<open>toISOString\<close> throws a RangeError.\<close>

definition Date_toISOString :: "int option \<Rightarrow> error + string" where
  "Date_toISOString n =
     (case n of
        None \<Rightarrow> Inl RangeError
      | Some t \<Rightarrow> if \<bar>t\<bar> \<le> 8640000000000000 then Inr (toISOString t) else Inl RangeError)"

text \<open>The loop "Convert records to our format".\<close>

fun convert_records :: "HistoryEntry list \<Rightarrow> RateRecord list \<Rightarrow> error + RateRecord list" where
  "convert_records [] records = Inr records"
| "convert_records (record # rest) records =
     (let recordTimestamp = parseInt (ts record)
      in case Date_toISOString recordTimestamp of
           Inl e \<Rightarrow> Inl e
         | Inr isoTimestamp \<Rightarrow>
             convert_records rest (records @ [\<lparr>timestamp = isoTimestamp, preRate = rate record\<rparr>]))"

text \<open>The filter "Only include records from the target day".\<close>

definition same_utc_day :: "string \<Rightarrow> RateRecord \<Rightarrow> bool" where
  "same_utc_day endDate record =
     (case (Date_parse (timestamp record), Date_parse endDate) of
        (Some recordDate, Some targetDate) \<Rightarrow>
          YearFromTime recordDate = YearFromTime targetDate
          \<and> MonthFromTime recordDate = MonthFromTime targetDate
          \<and> DateFromTime recordDate = DateFromTime targetDate
      | _ \<Rightarrow> False)"

text \<open>\<open>fetchHistoricalRates\<close>, given the answer to its request; the start date goes into
  the request only.\<close>

definition fetchHistoricalRates :: "string \<Rightarrow> OKXHistoryResponse http \<Rightarrow> error + RateRecord list" where
  "fetchHistoricalRates endDate response =
     (case response of
        HttpFailure \<Rightarrow> Inl TransportError
      | HttpBody body \<Rightarrow>
          if hcode body \<noteq> ''0'' then Inl ValidationError
          else if hdata body = None \<or> hdata body = Some [] then Inr []
          else
            (case convert_records (the (hdata body)) [] of
               Inl e \<Rightarrow> Inl e
             | Inr records \<Rightarrow> Inr (sort_by_time (filter (same_utc_day endDate) records))))"

text \<open>The tail of the history script, from "if (allHistoricalData.length === 0)" on.\<close>

definition store_history :: "RateRecord list \<Rightarrow> world \<Rightarrow> (error + unit) \<times> world" where
  "store_history allHistoricalData w =
     (if allHistoricalData = [] then (Inr (), w)
      else writeFileSync_rows CSV_PATH (sort_by_time allHistoricalData) w)"

text \<open>The loop over the days of the month; \<open>responses day\<close> is the answer to the request
  made for that day.\<close>

fun fetch_days :: "(int \<Rightarrow> string) \<Rightarrow> (int \<Rightarrow> OKXHistoryResponse http) \<Rightarrow> int list \<Rightarrow> RateRecord list \<Rightarrow> error + RateRecord list" where
  "fetch_days endDateOf responses [] allHistoricalData = Inr allHistoricalData"
| "fetch_days endDateOf responses (day # days) allHistoricalData =
     (case fetchHistoricalRates (endDateOf day) (responses day) of
        Inl e \<Rightarrow> Inl e
      | Inr dayData \<Rightarrow> fetch_days endDateOf responses days (allHistoricalData @ dayData))"

text \<open>The end date of the request for one day of the month: the end of the current hour
  for today, the end of the day otherwise.\<close>

definition endDate_of :: "int \<Rightarrow> string \<Rightarrow> int \<Rightarrow> int \<Rightarrow> int \<Rightarrow> string" where
  "endDate_of currentYear monthStr currentDay currentHour day =
     String_int currentYear @ ''-'' @ monthStr @ ''-'' @ padStart0 2 (String_int day) @ ''T''
     @ (if day = currentDay then padStart0 2 (String_int currentHour) @ '':59:59''
        else ''23:59:59'') @ ''Z''"

text \<open>\<open>fetchLendingRate\<close> of the history script: year, month and day are read in the local
  time zone, the hour in UTC.\<close>

definition history_fetchLendingRate :: "int \<Rightarrow> int \<Rightarrow> (int \<Rightarrow> OKXHistoryResponse http) \<Rightarrow> world \<Rightarrow> (error + unit) \<times> world" where
  "history_fetchLendingRate tza now responses w =
     (let currentYear = YearFromTime (now + tza);
          currentMonth = MonthFromTime (now + tza) + 1;
          currentDay = DateFromTime (now + tza);
          currentHour = HourFromTime now;
          monthStr = padStart0 2 (String_int currentMonth)
      in case fetch_days (endDate_of currentYear monthStr currentDay currentHour) responses
                [1..currentDay] [] of
           Inl e \<Rightarrow> (Inl e, w)
         | Inr allHistoricalData \<Rightarrow> store_history allHistoricalData w)"


section \<open>Notions used in the statements\<close>

text \<open>The rows of a store; a missing file has none.\<close>

definition rows_of :: "world \<Rightarrow> string \<Rightarrow> RateRecord list" where
  "rows_of w p = (case files w p of None \<Rightarrow> [] | Some rows \<Rightarrow> rows)"

definition month_key :: "RateRecord \<Rightarrow> string" where
  "month_key r = getMonthKey (timestamp r)"

text \<open>The records of one month, in the order of the store.\<close>

definition partition_of :: "string \<Rightarrow> RateRecord list \<Rightarrow> RateRecord list" where
  "partition_of k rows = filter (\<lambda>r. month_key r = k) rows"

text \<open>The (UTC year, month, day, hour) bucket of a time value.\<close>

definition bucket :: "int \<Rightarrow> int \<times> int \<times> int \<times> int" where
  "bucket t = (YearFromTime t, MonthFromTime t, DateFromTime t, HourFromTime t)"

text \<open>The month key of the invocation time, as \<open>performRollover\<close> computes it.\<close>

definition currentMonthKey :: "int \<Rightarrow> string" where
  "currentMonthKey now = getMonthKey (toISOString now)"

text \<open>The time value of a record whose timestamp is a valid date.\<close>

definition time_of :: "RateRecord \<Rightarrow> int" where
  "time_of r = the (Date_parse (timestamp r))"

text \<open>The grouping loop started from any map, and the archive files that the loop over
  the months may write; both serve the proofs only.\<close>

definition group_from :: "(string \<times> RateRecord list) list \<Rightarrow> RateRecord list \<Rightarrow> (string \<times> RateRecord list) list" where
  "group_from acc rows =
     foldl (\<lambda>dataByMonth record. push_month (getMonthKey (timestamp record)) record dataByMonth)
       acc rows"

definition archive_paths :: "string \<Rightarrow> (string \<times> RateRecord list) list \<Rightarrow> string set" where
  "archive_paths cur m = archiveFilePath ` {k \<in> fst ` set m. k \<noteq> cur}"

section \<open>Example stores\<close>

text \<open>The two records of the rollover scenario, and one more of the middle of June.\<close>

definition june_record :: RateRecord where
  "june_record = \<lparr>timestamp = ''2025-06-30T23:00:00Z'', preRate = ''0.04''\<rparr>"

definition july_record :: RateRecord where
  "july_record = \<lparr>timestamp = ''2025-07-01T01:00:00Z'', preRate = ''0.05''\<rparr>"

definition mid_june_record :: RateRecord where
  "mid_june_record = \<lparr>timestamp = ''2025-06-15T10:00:00Z'', preRate = ''0.03''\<rparr>"

text \<open>2025-07-01T12:00:00Z.\<close>

definition july_noon :: int where
  "july_noon = 1751371200000"

text \<open>A live store with a June and a July record, and no archive.\<close>

definition scenario_world :: world where
  "scenario_world =
     \<lparr>files = [CSV_PATH \<mapsto> [june_record, july_record]], written = [], budget = None\<rparr>"

text \<open>The same live store beside an archive of June that already holds a record.\<close>

definition archived_world :: world where
  "archived_world =
     \<lparr>files = [CSV_PATH \<mapsto> [june_record, july_record],
               ''data/2025-06.csv'' \<mapsto> [mid_june_record]],
      written = [], budget = None\<rparr>"

text \<open>The same live store where the fifth file call fails, and where the third does.\<close>

definition faulty_world :: world where
  "faulty_world =
     \<lparr>files = [CSV_PATH \<mapsto> [june_record, july_record]], written = [], budget = Some 4\<rparr>"

definition early_fault_world :: world where
  "early_fault_world =
     \<lparr>files = [CSV_PATH \<mapsto> [june_record, july_record]], written = [], budget = Some 2\<rparr>"

text \<open>A live store that holds the July record only.\<close>

definition july_world :: world where
  "july_world = \<lparr>files = [CSV_PATH \<mapsto> [july_record]], written = [], budget = None\<rparr>"

text \<open>A live store whose only row has neither a date nor a number.\<close>

definition corrupt_row :: RateRecord where
  "corrupt_row = \<lparr>timestamp = ''not-a-date'', preRate = ''NaN''\<rparr>"

definition corrupt_world :: world where
  "corrupt_world = \<lparr>files = [CSV_PATH \<mapsto> [corrupt_row]], written = [], budget = None\<rparr>"

text \<open>Live stores for the append: samples of 10:05 and 11:05, a sample of 10:05 only, and
  a sample of 12:30; a candidate of 10:30 and one of 11:00 on the same day.\<close>

definition two_hours_world :: world where
  "two_hours_world =
     \<lparr>files = [CSV_PATH \<mapsto> [\<lparr>timestamp = ''2025-07-01T10:05:00.000Z'', preRate = ''0.05''\<rparr>,
                              \<lparr>timestamp = ''2025-07-01T11:05:00.000Z'', preRate = ''0.05''\<rparr>]],
      written = [], budget = None\<rparr>"

definition one_hour_world :: world where
  "one_hour_world =
     \<lparr>files = [CSV_PATH \<mapsto> [\<lparr>timestamp = ''2025-07-01T10:05:00.000Z'', preRate = ''0.05''\<rparr>]],
      written = [], budget = None\<rparr>"

definition ahead_world :: world where
  "ahead_world =
     \<lparr>files = [CSV_PATH \<mapsto> [\<lparr>timestamp = ''2025-07-01T12:30:00Z'', preRate = ''0.05''\<rparr>]],
      written = [], budget = None\<rparr>"

definition candidate_stamp :: string where
  "candidate_stamp = ''2025-07-01T10:30:00.000Z''"

definition later_stamp :: string where
  "later_stamp = ''2025-07-01T11:00:00.000Z''"

text \<open>An answer of the summary endpoint with the rate 0.06, and the time value of
  2025-07-01T11:00:00Z.\<close>

definition good_response :: "OKXResponse http" where
  "good_response = HttpBody \<lparr>code = ''0'', data = Some [''0.06'']\<rparr>"

definition july_eleven :: int where
  "july_eleven = 1751367600000"

text \<open>Stores and batches for the history: a store with a sample of 05:00 and a batch with
  one of 01:00; the store and the batch of the specification's example.\<close>

definition backfill_world :: world where
  "backfill_world =
     \<lparr>files = [CSV_PATH \<mapsto> [\<lparr>timestamp = ''2025-07-01T05:00:00Z'', preRate = ''0.05''\<rparr>]],
      written = [], budget = None\<rparr>"

definition late_batch :: "RateRecord list" where
  "late_batch = [\<lparr>timestamp = ''2025-07-01T01:00:00Z'', preRate = ''0.07''\<rparr>]"

definition spec_store_world :: world where
  "spec_store_world =
     \<lparr>files = [CSV_PATH \<mapsto> [\<lparr>timestamp = ''2025-07-01T00:00:00Z'', preRate = ''0.05''\<rparr>]],
      written = [], budget = None\<rparr>"

definition spec_batch :: "RateRecord list" where
  "spec_batch = [\<lparr>timestamp = ''2025-07-01T00:00:00Z'', preRate = ''0.06''\<rparr>,
                 \<lparr>timestamp = ''2025-07-01T01:00:00Z'', preRate = ''0.07''\<rparr>]"

text \<open>An answer of the history endpoint, the same for every day: one entry, stamped
  2025-07-01T00:00:00Z, whose rate is the text \<open>NaN\<close>; and a data directory without files.\<close>

definition nan_history :: "int \<Rightarrow> OKXHistoryResponse http" where
  "nan_history day =
     HttpBody \<lparr>hcode = ''0'', hdata = Some [\<lparr>ts = ''1751328000000'', rate = ''NaN''\<rparr>]\<rparr>"

definition empty_world :: world where
  "empty_world = \<lparr>files = Map.empty, written = [], budget = None\<rparr>"

section \<open>Lemmas about the model\<close>

lemma RateRecord_eta: "\<lparr>timestamp = timestamp r, preRate = preRate r\<rparr> = (r::RateRecord)"
  by simp

lemma map_RateRecord_eta: "map (\<lambda>row. \<lparr>timestamp = timestamp row, preRate = preRate row\<rparr>) rows = (rows::RateRecord list)"
  by (induction rows) simp_all

subsection \<open>sorting\<close>

lemma mset_insert_by: "mset (insert_by c x ys) = add_mset x (mset ys)"
  by (induction ys) simp_all

lemma mset_sort_by: "mset (sort_by c xs) = mset xs"
  by (induction xs) (simp_all add: sort_by_def mset_insert_by)

lemma mset_sort_by_time: "mset (sort_by_time xs) = mset xs"
  by (simp add: sort_by_time_def mset_sort_by)

lemma set_sort_by_time: "set (sort_by_time xs) = set xs"
  using mset_sort_by_time [of xs] by (metis set_mset_mset)

lemma length_sort_by_time: "length (sort_by_time xs) = length xs"
  using mset_sort_by_time [of xs] by (metis size_mset)

lemma sort_by_time_Nil: "sort_by_time xs = [] \<longleftrightarrow> xs = []"
  using length_sort_by_time [of xs] by (metis length_0_conv)

lemma insert_by_insort:
  "valid_time x \<Longrightarrow> list_all valid_time ys \<Longrightarrow>
   insert_by compare_time x ys = insort_key time_of x ys"
  by (induction ys) (auto simp: compare_time_def valid_time_def time_of_def)

lemma sort_by_time_sort_key:
  "list_all valid_time xs \<Longrightarrow> sort_by_time xs = sort_key time_of xs"
proof (induction xs)
  case Nil
  show ?case by (simp add: sort_by_time_def sort_by_def)
next
  case (Cons x xs)
  have v: "list_all valid_time (sort_key time_of xs)"
    using Cons.prems by (simp add: list_all_iff)
  have "sort_by_time (x # xs) = insert_by compare_time x (sort_by_time xs)"
    by (simp add: sort_by_time_def sort_by_def)
  also have "\<dots> = insert_by compare_time x (sort_key time_of xs)"
    using Cons by simp
  also have "\<dots> = insort_key time_of x (sort_key time_of xs)"
    using Cons.prems v by (simp add: insert_by_insort)
  finally show ?case by simp
qed

lemma time_le_time_of:
  "valid_time a \<Longrightarrow> valid_time b \<Longrightarrow> time_le a b \<longleftrightarrow> time_of a \<le> time_of b"
  by (auto simp: valid_time_def time_le_def time_of_def)

lemma sorted_wrt_time_le:
  "list_all valid_time rs \<Longrightarrow>
   sorted_wrt time_le rs \<longleftrightarrow> sorted_wrt (\<lambda>a b. time_of a \<le> time_of b) rs"
  by (induction rs) (auto simp: list_all_iff time_le_time_of)

lemma ascending_sorted:
  "ascending rs \<longleftrightarrow> list_all valid_time rs \<and> sorted (map time_of rs)"
  using sorted_wrt_time_le [of rs] by (auto simp: ascending_def sorted_map)

lemma ascending_sort_by_time:
  "list_all valid_time xs \<Longrightarrow> ascending (sort_by_time xs)"
  by (simp add: ascending_sorted sort_by_time_sort_key list_all_iff)

lemma ascending_Nil: "ascending []"
  by (simp add: ascending_def)

subsection \<open>grouping\<close>

lemma map_of_push_month:
  "map_of (push_month k r m) =
   (map_of m)(k \<mapsto> (case map_of m k of None \<Rightarrow> [r] | Some rs \<Rightarrow> rs @ [r]))"
  by (induction m) (auto simp: fun_eq_iff)

lemma map_fst_push_month:
  "map fst (push_month k r m) = (if k \<in> fst ` set m then map fst m else map fst m @ [k])"
proof (induction m)
  case Nil
  show ?case by simp
next
  case (Cons a m)
  obtain k' rs where a: "a = (k', rs)" by (cases a)
  show ?case
  proof (cases "k' = k")
    case True
    with a show ?thesis by simp
  next
    case False
    with a Cons show ?thesis by simp
  qed
qed

lemma keys_push_month: "fst ` set (push_month k r m) = insert k (fst ` set m)"
proof -
  have "fst ` set (push_month k r m) = set (map fst (push_month k r m))" by simp
  also have "\<dots> = insert k (fst ` set m)"
    unfolding map_fst_push_month by auto
  finally show ?thesis .
qed

lemma distinct_push_month:
  "distinct (map fst m) \<Longrightarrow> distinct (map fst (push_month k r m))"
  by (simp add: map_fst_push_month)

lemma group_from_Cons:
  "group_from acc (r # rows) = group_from (push_month (getMonthKey (timestamp r)) r acc) rows"
  by (simp add: group_from_def)

lemma map_of_group_from:
  "map_of (group_from acc rows) k =
   (if partition_of k rows = [] then map_of acc k
    else Some ((case map_of acc k of None \<Rightarrow> [] | Some v \<Rightarrow> v) @ partition_of k rows))"
proof (induction rows arbitrary: acc)
  case Nil
  show ?case by (simp add: group_from_def partition_of_def)
next
  case (Cons r rows)
  show ?case
    by (simp add: group_from_Cons Cons.IH map_of_push_month partition_of_def month_key_def
        split: option.splits)
qed

lemma distinct_group_from:
  "distinct (map fst acc) \<Longrightarrow> distinct (map fst (group_from acc rows))"
  by (induction rows arbitrary: acc) (simp_all add: group_from_def distinct_push_month)

lemma keys_group_from:
  "fst ` set (group_from acc rows) = fst ` set acc \<union> month_key ` set rows"
  by (induction rows arbitrary: acc) (auto simp: group_from_def keys_push_month month_key_def)

lemma group_by_month_group_from: "group_by_month rows = group_from [] rows"
  by (simp add: group_by_month_def group_from_def)

lemma partition_of_Nil: "partition_of k rows = [] \<longleftrightarrow> k \<notin> month_key ` set rows"
  by (auto simp: partition_of_def filter_empty_conv)

lemma map_of_group_by_month:
  "map_of (group_by_month rows) k =
   (if k \<in> month_key ` set rows then Some (partition_of k rows) else None)"
  by (simp add: group_by_month_group_from map_of_group_from partition_of_Nil)

lemma distinct_group_by_month: "distinct (map fst (group_by_month rows))"
  by (simp add: group_by_month_group_from distinct_group_from)

lemma keys_group_by_month: "fst ` set (group_by_month rows) = month_key ` set rows"
  by (simp add: group_by_month_group_from keys_group_from)

lemma group_by_month_entry:
  "(k, d) \<in> set (group_by_month rows) \<longleftrightarrow> k \<in> month_key ` set rows \<and> d = partition_of k rows"
  using map_of_eq_Some_iff [OF distinct_group_by_month, of rows k d]
  by (auto simp: map_of_group_by_month split: if_splits)

subsection \<open>paths\<close>

lemma archiveFilePath_inj: "archiveFilePath k = archiveFilePath k' \<longleftrightarrow> k = k'"
  by (simp add: archiveFilePath_def)

lemma dash_in_getMonthKey: "CHR ''-'' \<in> set (getMonthKey s)"
  by (simp add: getMonthKey_def split: option.splits)

lemma archiveFilePath_month_key: "archiveFilePath (month_key r) \<noteq> CSV_PATH"
proof
  assume "archiveFilePath (month_key r) = CSV_PATH"
  then have "month_key r = ''rates''"
    by (simp add: archiveFilePath_def CSV_PATH_def DATA_DIR_def)
  moreover have "CHR ''-'' \<in> set (month_key r)"
    by (simp add: month_key_def dash_in_getMonthKey)
  ultimately show False by simp
qed


subsection \<open>file calls\<close>

lemma io_step_None: "io_step w = None \<longleftrightarrow> budget w = Some 0"
  by (simp add: io_step_def split: option.splits nat.splits)

lemma io_step_Some:
  "io_step w = Some w1 \<Longrightarrow> files w1 = files w \<and> written w1 = written w"
  by (auto simp: io_step_def split: option.splits nat.splits)

lemma io_step_no_fault: "budget w = None \<Longrightarrow> io_step w = Some w"
  by (simp add: io_step_def)

lemma writeFileSync_header_Inr:
  "writeFileSync_header p w = (Inr u, w1) \<Longrightarrow>
   files w1 = (files w)(p \<mapsto> []) \<and> written w1 = written w @ [p]"
  by (auto simp: writeFileSync_header_def split: option.splits dest: io_step_Some)

lemma writeFileSync_header_Inl:
  "writeFileSync_header p w = (Inl e, w1) \<Longrightarrow> w1 = w"
  by (auto simp: writeFileSync_header_def split: option.splits)

lemma writeFileSync_header_no_fault:
  "budget w = None \<Longrightarrow> \<exists>w1. writeFileSync_header p w = (Inr (), w1) \<and> budget w1 = None"
  by (simp add: writeFileSync_header_def io_step_no_fault)

lemma writeRecords_Inr:
  "writeRecords p False rows w = (Inr u, w1) \<Longrightarrow>
   files w1 = (files w)(p \<mapsto> rows) \<and> written w1 = written w @ [p]"
  by (auto simp: writeRecords_def split: option.splits dest: io_step_Some)

lemma writeRecords_append_Inr:
  "writeRecords p True rows w = (Inr u, w1) \<Longrightarrow>
   files w1 = (files w)(p \<mapsto> rows_of w p @ rows) \<and> written w1 = written w @ [p]"
  by (auto simp: writeRecords_def rows_of_def split: option.splits dest: io_step_Some)

lemma writeRecords_Inl:
  "writeRecords p a rows w = (Inl e, w1) \<Longrightarrow> w1 = w"
  by (auto simp: writeRecords_def split: option.splits)

lemma writeRecords_no_fault:
  "budget w = None \<Longrightarrow> \<exists>w1. writeRecords p a rows w = (Inr (), w1) \<and> budget w1 = None"
  by (simp add: writeRecords_def io_step_no_fault)

lemma writeCsvData_Inr:
  assumes "writeCsvData p d False w = (Inr u, w1)" and "d \<noteq> []"
  shows "files w1 = (files w)(p \<mapsto> d) \<and> written w1 = written w @ [p, p]"
proof -
  from assms obtain w0 where h: "writeFileSync_header p w = (Inr (), w0)"
    and r: "writeRecords p False d w0 = (Inr u, w1)"
    by (auto simp: writeCsvData_def split: prod.splits sum.splits)
  from writeFileSync_header_Inr [OF h] writeRecords_Inr [OF r] show ?thesis by simp
qed

lemma writeCsvData_Inl:
  assumes "writeCsvData p d False w = (Inl e, w1)"
  shows "(files w1 = files w \<and> written w1 = written w)
           \<or> (files w1 = (files w)(p \<mapsto> []) \<and> written w1 = written w @ [p])"
proof (cases "d = []")
  case True
  with assms show ?thesis by (simp add: writeCsvData_def)
next
  case False
  show ?thesis
  proof (cases "writeFileSync_header p w")
    case (Pair res w0)
    show ?thesis
    proof (cases res)
      case (Inl e')
      with Pair assms False have "w1 = w0" by (simp add: writeCsvData_def)
      moreover from Pair Inl have "w0 = w" by (simp add: writeFileSync_header_Inl)
      ultimately show ?thesis by simp
    next
      case (Inr u)
      with Pair assms False have r: "writeRecords p False d w0 = (Inl e, w1)"
        by (simp add: writeCsvData_def)
      from writeRecords_Inl [OF r] writeFileSync_header_Inr [of p w u w0] Pair Inr
      show ?thesis by simp
    qed
  qed
qed

lemma writeCsvData_no_fault:
  assumes "budget w = None"
  shows "\<exists>w1. writeCsvData p d False w = (Inr (), w1) \<and> budget w1 = None"
proof (cases "d = []")
  case True
  with assms show ?thesis by (simp add: writeCsvData_def)
next
  case False
  from writeFileSync_header_no_fault [OF assms, of p]
  obtain w0 where h: "writeFileSync_header p w = (Inr (), w0)" and b: "budget w0 = None"
    by blast
  from writeRecords_no_fault [OF b, of p False d]
  obtain w1 where r: "writeRecords p False d w0 = (Inr (), w1)" and b1: "budget w1 = None"
    by blast
  from False h r b1 show ?thesis by (simp add: writeCsvData_def)
qed

text \<open>What one \<open>writeCsvData\<close> leaves behind, whatever its outcome.\<close>

lemma writeCsvData_effect:
  assumes "writeCsvData p d False w = (res, w1)"
  shows "\<exists>log. written w1 = written w @ log \<and> set log \<subseteq> {p}
           \<and> (\<forall>q. q \<noteq> p \<longrightarrow> files w1 q = files w q)
           \<and> (log \<noteq> [] \<longrightarrow> files w1 p = Some [] \<or> files w1 p = Some d)"
proof (cases res)
  case (Inl e)
  with writeCsvData_Inl [of p d w e w1] assms
  have "(files w1 = files w \<and> written w1 = written w)
           \<or> (files w1 = (files w)(p \<mapsto> []) \<and> written w1 = written w @ [p])" by simp
  then show ?thesis
  proof
    assume "files w1 = files w \<and> written w1 = written w"
    then show ?thesis by (intro exI [of _ "[]"]) simp
  next
    assume "files w1 = (files w)(p \<mapsto> []) \<and> written w1 = written w @ [p]"
    then show ?thesis by (intro exI [of _ "[p]"]) simp
  qed
next
  case (Inr u)
  show ?thesis
  proof (cases "d = []")
    case True
    with assms have "w1 = w" by (simp add: writeCsvData_def)
    then show ?thesis by (intro exI [of _ "[]"]) simp
  next
    case False
    from writeCsvData_Inr [of p d w u w1] assms Inr False
    have "files w1 = (files w)(p \<mapsto> d) \<and> written w1 = written w @ [p, p]" by simp
    then show ?thesis by (intro exI [of _ "[p, p]"]) simp
  qed
qed

lemma readCsvData_missing: "files w p = None \<Longrightarrow> readCsvData p w = (Inr [], w)"
  by (simp add: readCsvData_def existsSync_def)

lemma readCsvData_present:
  "files w p = Some rows \<Longrightarrow>
   readCsvData p w = (case io_step w of None \<Rightarrow> (Inl StorageIOError, w) | Some w1 \<Rightarrow> (Inr rows, w1))"
  by (auto simp: readCsvData_def existsSync_def map_RateRecord_eta split: option.splits
      dest: io_step_Some)


subsection \<open>the loop over the months\<close>

lemma archive_paths_Nil: "archive_paths cur [] = {}"
  by (simp add: archive_paths_def)

lemma archive_paths_Cons:
  "archive_paths cur ((k, d) # m) =
   (if k \<noteq> cur then insert (archiveFilePath k) (archive_paths cur m) else archive_paths cur m)"
  by (auto simp: archive_paths_def)

lemma archive_paths_fresh:
  "k \<notin> fst ` set m \<Longrightarrow> archiveFilePath k \<notin> archive_paths cur m"
  by (force simp: archive_paths_def archiveFilePath_inj)

lemma archive_months_effect:
  assumes "archive_months cur m has w = (res, w2)" and "distinct (map fst m)"
  shows "\<exists>log. written w2 = written w @ log \<and> set log \<subseteq> archive_paths cur m
           \<and> (\<forall>q. q \<notin> archive_paths cur m \<longrightarrow> files w2 q = files w q)
           \<and> (\<forall>p\<in>set log. files w2 p = Some []
                  \<or> (\<exists>kd\<in>set m. files w2 p = Some (sort_by_time (snd kd))))"
  using assms
proof (induction m arbitrary: has w)
  case Nil
  then show ?case by (intro exI [of _ "[]"]) simp
next
  case (Cons a m)
  obtain k d where a: "a = (k, d)" by (cases a)
  from Cons.prems(2) a have dm: "distinct (map fst m)" and fresh: "k \<notin> fst ` set m" by auto
  show ?case
  proof (cases "k = cur")
    case True
    with Cons.prems(1) a have "archive_months cur m has w = (res, w2)" by simp
    from Cons.IH [OF this dm] obtain log where
      "written w2 = written w @ log" "set log \<subseteq> archive_paths cur m"
      "\<forall>q. q \<notin> archive_paths cur m \<longrightarrow> files w2 q = files w q"
      "\<forall>p\<in>set log. files w2 p = Some [] \<or> (\<exists>kd\<in>set m. files w2 p = Some (sort_by_time (snd kd)))"
      by blast
    with True a show ?thesis
      by (intro exI [of _ log]) (auto simp: archive_paths_Cons)
  next
    case False
    let ?p = "archiveFilePath k"
    obtain r1 w1 where wr: "writeCsvData ?p (sort_by_time d) False w = (r1, w1)"
      by (cases "writeCsvData ?p (sort_by_time d) False w")
    from writeCsvData_effect [OF wr] obtain log1 where
      l1: "written w1 = written w @ log1" and s1: "set log1 \<subseteq> {?p}"
      and f1: "\<forall>q. q \<noteq> ?p \<longrightarrow> files w1 q = files w q"
      and c1: "log1 \<noteq> [] \<longrightarrow> files w1 ?p = Some [] \<or> files w1 ?p = Some (sort_by_time d)"
      by blast
    show ?thesis
    proof (cases r1)
      case (Inl e)
      with Cons.prems(1) a False wr have "w2 = w1" by simp
      with l1 s1 f1 c1 a False show ?thesis
        by (intro exI [of _ log1]) (auto simp: archive_paths_Cons)
    next
      case (Inr u)
      with Cons.prems(1) a False wr have "archive_months cur m True w1 = (res, w2)" by simp
      from Cons.IH [OF this dm] obtain log2 where
        l2: "written w2 = written w1 @ log2" and s2: "set log2 \<subseteq> archive_paths cur m"
        and f2: "\<forall>q. q \<notin> archive_paths cur m \<longrightarrow> files w2 q = files w1 q"
        and c2: "\<forall>p\<in>set log2. files w2 p = Some []
                   \<or> (\<exists>kd\<in>set m. files w2 p = Some (sort_by_time (snd kd)))"
        by blast
      have keep: "files w2 ?p = files w1 ?p"
        using f2 archive_paths_fresh [OF fresh] by simp
      have "written w2 = written w @ (log1 @ log2)" using l1 l2 by simp
      moreover have "set (log1 @ log2) \<subseteq> archive_paths cur (a # m)"
        using s1 s2 a False by (auto simp: archive_paths_Cons)
      moreover have "\<forall>q. q \<notin> archive_paths cur (a # m) \<longrightarrow> files w2 q = files w q"
        using f1 f2 a False by (auto simp: archive_paths_Cons)
      moreover have "\<forall>p\<in>set (log1 @ log2). files w2 p = Some []
                   \<or> (\<exists>kd\<in>set (a # m). files w2 p = Some (sort_by_time (snd kd)))"
      proof
        fix p assume "p \<in> set (log1 @ log2)"
        then consider "p \<in> set log1" | "p \<in> set log2" by auto
        then show "files w2 p = Some []
                   \<or> (\<exists>kd\<in>set (a # m). files w2 p = Some (sort_by_time (snd kd)))"
        proof cases
          case 1
          with s1 have "p = ?p" and "log1 \<noteq> []" by auto
          with c1 keep a show ?thesis by auto
        next
          case 2
          with c2 show ?thesis by auto
        qed
      qed
      ultimately show ?thesis by blast
    qed
  qed
qed

lemma archive_months_Inr:
  assumes "archive_months cur m has w = (Inr h, w2)" and "distinct (map fst m)"
    and "\<forall>kd\<in>set m. snd kd \<noteq> []"
  shows "(h \<longleftrightarrow> has \<or> (\<exists>k\<in>fst ` set m. k \<noteq> cur))
         \<and> (\<forall>kd\<in>set m. fst kd \<noteq> cur \<longrightarrow>
               files w2 (archiveFilePath (fst kd)) = Some (sort_by_time (snd kd)))"
  using assms
proof (induction m arbitrary: has w)
  case Nil
  then show ?case by simp
next
  case (Cons a m)
  obtain k d where a: "a = (k, d)" by (cases a)
  from Cons.prems(2) a have dm: "distinct (map fst m)" and fresh: "k \<notin> fst ` set m" by auto
  from Cons.prems(3) a have ne: "\<forall>kd\<in>set m. snd kd \<noteq> []" and d: "d \<noteq> []" by auto
  show ?case
  proof (cases "k = cur")
    case True
    with Cons.prems(1) a have "archive_months cur m has w = (Inr h, w2)" by simp
    from Cons.IH [OF this dm ne] True a show ?thesis by auto
  next
    case False
    let ?p = "archiveFilePath k"
    obtain r1 w1 where wr: "writeCsvData ?p (sort_by_time d) False w = (r1, w1)"
      by (cases "writeCsvData ?p (sort_by_time d) False w")
    from Cons.prems(1) a False wr obtain u where r1: "r1 = Inr u"
      and rest: "archive_months cur m True w1 = (Inr h, w2)"
      by (cases r1) auto
    from writeCsvData_Inr [of ?p "sort_by_time d" w u w1] wr r1 d
    have f1: "files w1 ?p = Some (sort_by_time d)" by (simp add: sort_by_time_Nil)
    from archive_months_effect [OF rest dm] archive_paths_fresh [OF fresh]
    have "files w2 ?p = files w1 ?p" by blast
    with f1 Cons.IH [OF rest dm ne] a False show ?thesis by auto
  qed
qed

lemma archive_months_no_fault:
  "budget w = None \<Longrightarrow>
   \<exists>h w2. archive_months cur m has w = (Inr h, w2) \<and> budget w2 = None"
proof (induction m arbitrary: has w)
  case Nil
  then show ?case by simp
next
  case (Cons a m)
  obtain k d where a: "a = (k, d)" by (cases a)
  show ?case
  proof (cases "k = cur")
    case True
    with a Cons show ?thesis by simp
  next
    case False
    from writeCsvData_no_fault [OF Cons.prems, of "archiveFilePath k" "sort_by_time d"]
    obtain w1 where "writeCsvData (archiveFilePath k) (sort_by_time d) False w = (Inr (), w1)"
      and "budget w1 = None" by blast
    with Cons.IH [of w1 True] a False show ?thesis by simp
  qed
qed

lemma archive_months_all_current:
  "\<forall>k\<in>fst ` set m. k = cur \<Longrightarrow> archive_months cur m has w = (Inr has, w)"
  by (induction m arbitrary: has w) auto


subsection \<open>performRollover\<close>

lemma performRollover_missing:
  "files w CSV_PATH = None \<Longrightarrow> performRollover now w = (Inr (), w)"
  by (simp add: performRollover_def existsSync_def)

lemma performRollover_read_fault:
  "files w CSV_PATH = Some rows \<Longrightarrow> io_step w = None \<Longrightarrow>
   performRollover now w = (Inl StorageIOError, w)"
  by (simp add: performRollover_def existsSync_def readCsvData_present)

lemma performRollover_empty:
  "files w CSV_PATH = Some [] \<Longrightarrow> io_step w = Some w1 \<Longrightarrow>
   performRollover now w = (Inr (), w1)"
  by (simp add: performRollover_def existsSync_def readCsvData_present)

lemma currentMonthData:
  "(case map_of (group_by_month rows) k of None \<Rightarrow> [] | Some d \<Rightarrow> d) = partition_of k rows"
proof (cases "k \<in> month_key ` set rows")
  case True
  then show ?thesis by (simp add: map_of_group_by_month)
next
  case False
  then have "partition_of k rows = []" by (simp add: partition_of_Nil)
  with False show ?thesis by (simp add: map_of_group_by_month)
qed

lemma performRollover_main:
  assumes "files w CSV_PATH = Some rows" and "rows \<noteq> []" and "io_step w = Some w1"
  shows "performRollover now w =
     (case archive_months (currentMonthKey now) (group_by_month rows) False w1 of
        (Inl e, w2) \<Rightarrow> (Inl e, w2)
      | (Inr hasRollover, w2) \<Rightarrow>
          if hasRollover then
            (if partition_of (currentMonthKey now) rows \<noteq> []
             then writeCsvData CSV_PATH (sort_by_time (partition_of (currentMonthKey now) rows)) False w2
             else writeFileSync_header CSV_PATH w2)
          else (Inr (), w2))"
  using assms
  by (simp add: performRollover_def existsSync_def readCsvData_present currentMonthData
      currentMonthKey_def Let_def split: prod.splits sum.splits)

lemma CSV_PATH_not_archive: "CSV_PATH \<notin> archive_paths cur (group_by_month rows)"
proof
  assume "CSV_PATH \<in> archive_paths cur (group_by_month rows)"
  then obtain r where "CSV_PATH = archiveFilePath (month_key r)"
    by (auto simp: archive_paths_def keys_group_by_month)
  with archiveFilePath_month_key [of r] show False by simp
qed

lemma archive_paths_group:
  "archive_paths cur (group_by_month rows) = archiveFilePath ` {k \<in> month_key ` set rows. k \<noteq> cur}"
  by (simp add: archive_paths_def keys_group_by_month)

text \<open>The loop on the grouped rows of the live store.\<close>

lemma archive_group_effect:
  assumes "archive_months cur (group_by_month rows) False w1 = (r2, w2)"
  shows "\<exists>log. written w2 = written w1 @ log
           \<and> set log \<subseteq> archiveFilePath ` {k \<in> month_key ` set rows. k \<noteq> cur}
           \<and> CSV_PATH \<notin> set log
           \<and> files w2 CSV_PATH = files w1 CSV_PATH
           \<and> (\<forall>q. q \<notin> archiveFilePath ` {k \<in> month_key ` set rows. k \<noteq> cur} \<longrightarrow> files w2 q = files w1 q)
           \<and> (\<forall>p\<in>set log. files w2 p = Some []
                  \<or> (\<exists>k\<in>month_key ` set rows. files w2 p = Some (sort_by_time (partition_of k rows))))"
proof -
  from archive_months_effect [OF assms distinct_group_by_month]
  obtain log where l: "written w2 = written w1 @ log"
    and s: "set log \<subseteq> archive_paths cur (group_by_month rows)"
    and f: "\<forall>q. q \<notin> archive_paths cur (group_by_month rows) \<longrightarrow> files w2 q = files w1 q"
    and c: "\<forall>p\<in>set log. files w2 p = Some []
              \<or> (\<exists>kd\<in>set (group_by_month rows). files w2 p = Some (sort_by_time (snd kd)))"
    by blast
  have c': "\<forall>p\<in>set log. files w2 p = Some []
              \<or> (\<exists>k\<in>month_key ` set rows. files w2 p = Some (sort_by_time (partition_of k rows)))"
  proof
    fix p assume "p \<in> set log"
    with c have "files w2 p = Some []
        \<or> (\<exists>kd\<in>set (group_by_month rows). files w2 p = Some (sort_by_time (snd kd)))" by blast
    then show "files w2 p = Some []
              \<or> (\<exists>k\<in>month_key ` set rows. files w2 p = Some (sort_by_time (partition_of k rows)))"
    proof
      assume "files w2 p = Some []" then show ?thesis by simp
    next
      assume "\<exists>kd\<in>set (group_by_month rows). files w2 p = Some (sort_by_time (snd kd))"
      then obtain k d where "(k, d) \<in> set (group_by_month rows)"
        and "files w2 p = Some (sort_by_time d)" by auto
      then show ?thesis by (auto simp: group_by_month_entry)
    qed
  qed
  from s CSV_PATH_not_archive have "CSV_PATH \<notin> set log" by blast
  moreover from f CSV_PATH_not_archive have "files w2 CSV_PATH = files w1 CSV_PATH" by blast
  ultimately show ?thesis using l s f c' by (auto simp: archive_paths_group)
qed

lemma archive_group_Inr:
  assumes "archive_months cur (group_by_month rows) False w1 = (Inr h, w2)"
  shows "(h \<longleftrightarrow> (\<exists>r\<in>set rows. month_key r \<noteq> cur))
         \<and> (\<forall>r\<in>set rows. month_key r \<noteq> cur \<longrightarrow>
               files w2 (archiveFilePath (month_key r)) = Some (sort_by_time (partition_of (month_key r) rows)))"
proof -
  have ne: "\<forall>kd\<in>set (group_by_month rows). snd kd \<noteq> []"
    by (auto simp: group_by_month_entry partition_of_Nil)
  from archive_months_Inr [OF assms distinct_group_by_month ne]
  have h: "h \<longleftrightarrow> (\<exists>k\<in>fst ` set (group_by_month rows). k \<noteq> cur)"
    and a: "\<forall>kd\<in>set (group_by_month rows). fst kd \<noteq> cur \<longrightarrow>
               files w2 (archiveFilePath (fst kd)) = Some (sort_by_time (snd kd))"
    by simp_all
  have "\<forall>r\<in>set rows. month_key r \<noteq> cur \<longrightarrow>
               files w2 (archiveFilePath (month_key r)) = Some (sort_by_time (partition_of (month_key r) rows))"
  proof (intro ballI impI)
    fix r assume r: "r \<in> set rows" and k: "month_key r \<noteq> cur"
    then have "(month_key r, partition_of (month_key r) rows) \<in> set (group_by_month rows)"
      by (simp add: group_by_month_entry)
    with a k show "files w2 (archiveFilePath (month_key r)) = Some (sort_by_time (partition_of (month_key r) rows))"
      by fastforce
  qed
  with h show ?thesis by (auto simp: keys_group_by_month)
qed


lemma sort_by_time_empty: "sort_by_time [] = []"
  by (simp add: sort_by_time_def sort_by_def)

lemma live_rewrite_effect:
  assumes "(if d \<noteq> [] then writeCsvData CSV_PATH (sort_by_time d) False w2
            else writeFileSync_header CSV_PATH w2) = (res, w')"
  shows "\<exists>llog. written w' = written w2 @ llog \<and> set llog \<subseteq> {CSV_PATH}
           \<and> (\<forall>q. q \<noteq> CSV_PATH \<longrightarrow> files w' q = files w2 q)
           \<and> (llog = [] \<longrightarrow> files w' = files w2 \<and> (\<exists>e. res = Inl e))
           \<and> (llog \<noteq> [] \<longrightarrow> files w' CSV_PATH = Some [] \<or> files w' CSV_PATH = Some (sort_by_time d))
           \<and> (res = Inr () \<longrightarrow> files w' CSV_PATH = Some (sort_by_time d))
           \<and> ((\<exists>e. res = Inl e) \<longrightarrow> llog = [] \<or> files w' CSV_PATH = Some [])"
proof (cases "d = []")
  case True
  with assms have h: "writeFileSync_header CSV_PATH w2 = (res, w')" by simp
  show ?thesis
  proof (cases res)
    case (Inl e)
    with h have "w' = w2" by (simp add: writeFileSync_header_Inl)
    with Inl show ?thesis by (intro exI [of _ "[]"]) simp
  next
    case (Inr u)
    with writeFileSync_header_Inr [of CSV_PATH w2 u w'] h True
    have "files w' = (files w2)(CSV_PATH \<mapsto> [])" "written w' = written w2 @ [CSV_PATH]"
      by simp_all
    with Inr True show ?thesis
      by (intro exI [of _ "[CSV_PATH]"]) (simp add: sort_by_time_empty)
  qed
next
  case False
  then have sd: "sort_by_time d \<noteq> []" by (simp add: sort_by_time_Nil)
  from False assms have h: "writeCsvData CSV_PATH (sort_by_time d) False w2 = (res, w')" by simp
  show ?thesis
  proof (cases res)
    case (Inl e)
    with writeCsvData_Inl [of CSV_PATH "sort_by_time d" w2 e w'] h
    have "(files w' = files w2 \<and> written w' = written w2)
           \<or> (files w' = (files w2)(CSV_PATH \<mapsto> []) \<and> written w' = written w2 @ [CSV_PATH])"
      by simp
    then show ?thesis
    proof
      assume "files w' = files w2 \<and> written w' = written w2"
      with Inl show ?thesis by (intro exI [of _ "[]"]) simp
    next
      assume "files w' = (files w2)(CSV_PATH \<mapsto> []) \<and> written w' = written w2 @ [CSV_PATH]"
      with Inl show ?thesis by (intro exI [of _ "[CSV_PATH]"]) simp
    qed
  next
    case (Inr u)
    with writeCsvData_Inr [of CSV_PATH "sort_by_time d" w2 u w'] h sd
    have "files w' = (files w2)(CSV_PATH \<mapsto> sort_by_time d)"
      "written w' = written w2 @ [CSV_PATH, CSV_PATH]" by simp_all
    with Inr show ?thesis by (intro exI [of _ "[CSV_PATH, CSV_PATH]"]) simp
  qed
qed

lemma rows_of_Some: "files w p = Some rows \<Longrightarrow> rows_of w p = rows"
  by (simp add: rows_of_def)

lemma rows_of_None: "files w p = None \<Longrightarrow> rows_of w p = []"
  by (simp add: rows_of_def)

text \<open>A run that finds no record of another month writes nothing.\<close>

lemma rollover_unchanged:
  assumes cur: "\<forall>r\<in>set (rows_of w CSV_PATH). month_key r = currentMonthKey now"
    and run: "performRollover now w = (res, w')"
  shows "files w' = files w \<and> written w' = written w \<and> (budget w \<noteq> Some 0 \<longrightarrow> res = Inr ())"
proof (cases "files w CSV_PATH")
  case None
  with run show ?thesis by (simp add: performRollover_missing)
next
  case (Some rows)
  show ?thesis
  proof (cases "io_step w")
    case None
    with Some run show ?thesis by (simp add: performRollover_read_fault io_step_None)
  next
    case (Some w1)
    note step = this
    show ?thesis
    proof (cases "rows = []")
      case True
      with \<open>files w CSV_PATH = Some rows\<close> step run io_step_Some [OF step] show ?thesis
        by (simp add: performRollover_empty)
    next
      case False
      from cur \<open>files w CSV_PATH = Some rows\<close>
      have "\<forall>k\<in>fst ` set (group_by_month rows). k = currentMonthKey now"
        by (auto simp: keys_group_by_month rows_of_Some)
      then have "archive_months (currentMonthKey now) (group_by_month rows) False w1 = (Inr False, w1)"
        by (rule archive_months_all_current)
      with performRollover_main [OF \<open>files w CSV_PATH = Some rows\<close> False step, of now] run
        io_step_Some [OF step]
      show ?thesis by simp
    qed
  qed
qed

text \<open>Every run: the writes to archives come first, then those to the live store.\<close>

lemma rollover_effect:
  assumes run: "performRollover now w = (res, w')"
  shows "\<exists>alog llog. written w' = written w @ alog @ llog
     \<and> set alog \<subseteq> archiveFilePath ` {k \<in> month_key ` set (rows_of w CSV_PATH). k \<noteq> currentMonthKey now}
     \<and> CSV_PATH \<notin> set alog \<and> set llog \<subseteq> {CSV_PATH}
     \<and> (\<forall>q. q \<noteq> CSV_PATH \<and> q \<notin> archiveFilePath ` {k \<in> month_key ` set (rows_of w CSV_PATH). k \<noteq> currentMonthKey now}
            \<longrightarrow> files w' q = files w q)
     \<and> (\<forall>p\<in>set alog. files w' p = Some []
            \<or> (\<exists>k\<in>month_key ` set (rows_of w CSV_PATH).
                  files w' p = Some (sort_by_time (partition_of k (rows_of w CSV_PATH)))))
     \<and> (llog = [] \<longrightarrow> files w' CSV_PATH = files w CSV_PATH)
     \<and> (llog \<noteq> [] \<longrightarrow>
           (files w' CSV_PATH = Some []
              \<or> files w' CSV_PATH = Some (sort_by_time (partition_of (currentMonthKey now) (rows_of w CSV_PATH))))
           \<and> (\<forall>r\<in>set (rows_of w CSV_PATH). month_key r \<noteq> currentMonthKey now \<longrightarrow>
                 files w' (archiveFilePath (month_key r))
                   = Some (sort_by_time (partition_of (month_key r) (rows_of w CSV_PATH)))))
     \<and> ((\<exists>e. res = Inl e) \<longrightarrow> llog = [] \<or> files w' CSV_PATH = Some [])
     \<and> (res = Inr () \<and> (\<exists>r\<in>set (rows_of w CSV_PATH). month_key r \<noteq> currentMonthKey now) \<longrightarrow>
           llog \<noteq> []
           \<and> files w' CSV_PATH = Some (sort_by_time (partition_of (currentMonthKey now) (rows_of w CSV_PATH))))"
proof (cases "\<forall>r\<in>set (rows_of w CSV_PATH). month_key r = currentMonthKey now")
  case True
  from rollover_unchanged [OF True run] True show ?thesis
    by (intro exI [of _ "[]"]) simp
next
  case stale: False
  then obtain r0 where r0: "r0 \<in> set (rows_of w CSV_PATH)" by blast
  then obtain rows where live: "files w CSV_PATH = Some rows"
    by (cases "files w CSV_PATH") (simp_all add: rows_of_def)
  then have ro: "rows_of w CSV_PATH = rows" by (simp add: rows_of_Some)
  from r0 ro have ne: "rows \<noteq> []" by auto
  let ?cur = "currentMonthKey now"
  show ?thesis
  proof (cases "io_step w")
    case None
    with live run have "w' = w" "res = Inl StorageIOError"
      by (simp_all add: performRollover_read_fault)
    then show ?thesis by (intro exI [of _ "[]"]) simp
  next
    case (Some w1)
    note step = this
    from io_step_Some [OF step] have w1: "files w1 = files w" "written w1 = written w" by simp_all
    obtain r2 w2 where loop: "archive_months ?cur (group_by_month rows) False w1 = (r2, w2)"
      by (cases "archive_months ?cur (group_by_month rows) False w1")
    from archive_group_effect [OF loop] w1 obtain alog where
      al: "written w2 = written w @ alog"
      and as: "set alog \<subseteq> archiveFilePath ` {k \<in> month_key ` set rows. k \<noteq> ?cur}"
      and an: "CSV_PATH \<notin> set alog"
      and ac: "files w2 CSV_PATH = files w CSV_PATH"
      and af: "\<forall>q. q \<notin> archiveFilePath ` {k \<in> month_key ` set rows. k \<noteq> ?cur} \<longrightarrow> files w2 q = files w q"
      and aw: "\<forall>p\<in>set alog. files w2 p = Some []
                  \<or> (\<exists>k\<in>month_key ` set rows. files w2 p = Some (sort_by_time (partition_of k rows)))"
      by auto
    show ?thesis
    proof (cases r2)
      case (Inl e)
      with performRollover_main [OF live ne step, of now] loop run
      have "res = Inl e" "w' = w2" by simp_all
      with al as an ac af aw ro show ?thesis
        by (intro exI [of _ alog] exI [of _ "[]"]) simp
    next
      case (Inr h)
      from archive_group_Inr [of ?cur rows w1 h w2] loop Inr stale ro
      have h: "h" and arch: "\<forall>r\<in>set rows. month_key r \<noteq> ?cur \<longrightarrow>
               files w2 (archiveFilePath (month_key r)) = Some (sort_by_time (partition_of (month_key r) rows))"
        by auto
      from performRollover_main [OF live ne step, of now] loop run Inr h
      have "(if partition_of ?cur rows \<noteq> []
             then writeCsvData CSV_PATH (sort_by_time (partition_of ?cur rows)) False w2
             else writeFileSync_header CSV_PATH w2) = (res, w')" by simp
      from live_rewrite_effect [OF this] obtain llog where
        ll: "written w' = written w2 @ llog" and ls: "set llog \<subseteq> {CSV_PATH}"
        and lf: "\<forall>q. q \<noteq> CSV_PATH \<longrightarrow> files w' q = files w2 q"
        and l0: "llog = [] \<longrightarrow> files w' = files w2 \<and> (\<exists>e. res = Inl e)"
        and l1: "llog \<noteq> [] \<longrightarrow> files w' CSV_PATH = Some []
                   \<or> files w' CSV_PATH = Some (sort_by_time (partition_of ?cur rows))"
        and l2: "res = Inr () \<longrightarrow> files w' CSV_PATH = Some (sort_by_time (partition_of ?cur rows))"
        and l3: "(\<exists>e. res = Inl e) \<longrightarrow> llog = [] \<or> files w' CSV_PATH = Some []"
        by blast
      have arch': "\<forall>r\<in>set rows. month_key r \<noteq> ?cur \<longrightarrow>
               files w' (archiveFilePath (month_key r)) = Some (sort_by_time (partition_of (month_key r) rows))"
        using arch lf archiveFilePath_month_key by simp
      have aw': "\<forall>p\<in>set alog. files w' p = Some []
                  \<or> (\<exists>k\<in>month_key ` set rows. files w' p = Some (sort_by_time (partition_of k rows)))"
        using aw lf an by metis
      have "written w' = written w @ alog @ llog" using al ll by simp
      moreover have "\<forall>q. q \<noteq> CSV_PATH \<and> q \<notin> archiveFilePath ` {k \<in> month_key ` set rows. k \<noteq> ?cur}
            \<longrightarrow> files w' q = files w q" using af lf by simp
      moreover have "llog = [] \<longrightarrow> files w' CSV_PATH = files w CSV_PATH" using l0 ac by simp
      moreover have "res = Inr () \<longrightarrow> llog \<noteq> []" using l0 by auto
      ultimately show ?thesis
        using as an ls aw' l1 l2 l3 arch' ro
        by (intro exI [of _ alog] exI [of _ llog]) simp
    qed
  qed
qed

lemma rollover_no_fault:
  assumes "budget w = None"
  shows "\<exists>w'. performRollover now w = (Inr (), w') \<and> budget w' = None"
proof (cases "files w CSV_PATH")
  case None
  with assms show ?thesis by (simp add: performRollover_missing)
next
  case (Some rows)
  from assms have step: "io_step w = Some w" by (rule io_step_no_fault)
  show ?thesis
  proof (cases "rows = []")
    case True
    with Some step assms show ?thesis by (simp add: performRollover_empty)
  next
    case False
    let ?cur = "currentMonthKey now"
    from archive_months_no_fault [OF assms, of ?cur "group_by_month rows" False]
    obtain h w2 where loop: "archive_months ?cur (group_by_month rows) False w = (Inr h, w2)"
      and b2: "budget w2 = None" by blast
    from writeCsvData_no_fault [OF b2, of CSV_PATH "sort_by_time (partition_of ?cur rows)"]
      writeFileSync_header_no_fault [OF b2, of CSV_PATH] b2
    show ?thesis
      by (auto simp: performRollover_main [OF Some False step] loop)
  qed
qed


lemma string_of_nat_small: "n < 10 \<Longrightarrow> string_of_nat n = [digit_char n]"
  by (simp add: string_of_nat.simps)
lemma string_of_nat_big: "\<not> n < 10 \<Longrightarrow> string_of_nat n = string_of_nat (n div 10) @ [digit_char (n mod 10)]"
  by (subst string_of_nat.simps) simp
lemma digit_chars:
  "digit_char 0 = CHR ''0''" "digit_char 1 = CHR ''1''" "digit_char 2 = CHR ''2''"
  "digit_char 3 = CHR ''3''" "digit_char 4 = CHR ''4''" "digit_char 5 = CHR ''5''"
  "digit_char 6 = CHR ''6''" "digit_char 7 = CHR ''7''" "digit_char 8 = CHR ''8''"
  "digit_char 9 = CHR ''9''" "digit_char (Suc 0) = CHR ''1''"
  by code_simp+
lemma replicate_small:
  "replicate 1 c = [c]" "replicate 2 c = [c, c]" "replicate 3 c = [c, c, c]"
  "replicate 4 c = [c, c, c, c]" "replicate 5 c = [c, c, c, c, c]"
  by (simp_all add: numeral_eq_Suc)
lemmas date_eval = Date_parse_def fraction_Z_def digit_val_def [unfolded Let_def]
  days_from_civil_def [unfolded Let_def] msPerDay_def
  getMonthKey_def YearFromTime_def MonthFromTime_def DateFromTime_def HourFromTime_def MinFromTime_def SecFromTime_def
  msFromTime_def Day_def civil_from_days_def [unfolded Let_def] String_int_def string_of_nat_small string_of_nat_big digit_chars replicate_small padStart0_def toISOString_def [unfolded Let_def]


lemma example_keys:
  "getMonthKey ''2025-06-30T23:00:00Z'' = ''2025-06''"
  "getMonthKey ''2025-07-01T01:00:00Z'' = ''2025-07''"
  "getMonthKey ''2025-06-15T10:00:00Z'' = ''2025-06''"
  "getMonthKey (toISOString 1751371200000) = ''2025-07''"
  by (simp_all add: date_eval)

lemmas run_eval = performRollover_def readCsvData_def existsSync_def io_step_def
  group_by_month_def archiveFilePath_def DATA_DIR_def CSV_PATH_def writeCsvData_def
  writeFileSync_header_def writeRecords_def sort_by_time_def sort_by_def Let_def
  rows_of_def month_key_def currentMonthKey_def

lemma scenario_run:
  "fst (performRollover july_noon scenario_world) = Inr ()"
  "rows_of (snd (performRollover july_noon scenario_world)) CSV_PATH = [july_record]"
  "rows_of (snd (performRollover july_noon scenario_world)) ''data/2025-06.csv'' = [june_record]"
  by (simp_all add: run_eval example_keys scenario_world_def july_noon_def june_record_def july_record_def)


lemma set_partition_of: "set (partition_of k rows) = {r \<in> set rows. month_key r = k}"
  by (simp add: partition_of_def)

lemma rows_of_files: "files w' p = files w p \<Longrightarrow> rows_of w' p = rows_of w p"
  by (simp add: rows_of_def)

lemma rows_of_written: "files w p = Some rows \<Longrightarrow> set (rows_of w p) = set rows"
  by (simp add: rows_of_def)

text \<open>A run that completes and finds a record of another month.\<close>

lemma rollover_Inr:
  assumes ok: "fst (performRollover now w) = Inr ()"
    and r0: "r0 \<in> set (rows_of w CSV_PATH)" "month_key r0 \<noteq> currentMonthKey now"
  shows "files (snd (performRollover now w)) CSV_PATH
           = Some (sort_by_time (partition_of (currentMonthKey now) (rows_of w CSV_PATH)))"
    and "\<forall>r\<in>set (rows_of w CSV_PATH). month_key r \<noteq> currentMonthKey now \<longrightarrow>
           files (snd (performRollover now w)) (archiveFilePath (month_key r))
             = Some (sort_by_time (partition_of (month_key r) (rows_of w CSV_PATH)))"
    and "\<forall>q. q \<noteq> CSV_PATH
           \<and> q \<notin> archiveFilePath ` {k \<in> month_key ` set (rows_of w CSV_PATH). k \<noteq> currentMonthKey now}
           \<longrightarrow> files (snd (performRollover now w)) q = files w q"
proof -
  obtain res w' where run: "performRollover now w = (res, w')"
    by (cases "performRollover now w")
  with ok have res: "res = Inr ()" by simp
  from rollover_effect [OF run] res r0 run
  show "files (snd (performRollover now w)) CSV_PATH
           = Some (sort_by_time (partition_of (currentMonthKey now) (rows_of w CSV_PATH)))"
    and "\<forall>r\<in>set (rows_of w CSV_PATH). month_key r \<noteq> currentMonthKey now \<longrightarrow>
           files (snd (performRollover now w)) (archiveFilePath (month_key r))
             = Some (sort_by_time (partition_of (month_key r) (rows_of w CSV_PATH)))"
    and "\<forall>q. q \<noteq> CSV_PATH
           \<and> q \<notin> archiveFilePath ` {k \<in> month_key ` set (rows_of w CSV_PATH). k \<noteq> currentMonthKey now}
           \<longrightarrow> files (snd (performRollover now w)) q = files w q"
    by auto
qed

lemma rollover_unchanged_snd:
  assumes "\<forall>r\<in>set (rows_of w CSV_PATH). month_key r = currentMonthKey now"
  shows "files (snd (performRollover now w)) = files w"
    and "written (snd (performRollover now w)) = written w"
    and "budget w \<noteq> Some 0 \<Longrightarrow> fst (performRollover now w) = Inr ()"
  using rollover_unchanged [OF assms, of "fst (performRollover now w)" "snd (performRollover now w)"]
  by simp_all

lemma rollover_live_current:
  assumes ok: "fst (performRollover now w) = Inr ()"
  shows "\<forall>r\<in>set (rows_of (snd (performRollover now w)) CSV_PATH). month_key r = currentMonthKey now"
proof (cases "\<forall>r\<in>set (rows_of w CSV_PATH). month_key r = currentMonthKey now")
  case True
  from rollover_unchanged_snd(1) [OF True] have "rows_of (snd (performRollover now w)) CSV_PATH = rows_of w CSV_PATH"
    by (simp add: rows_of_def)
  with True show ?thesis by simp
next
  case False
  then obtain r0 where "r0 \<in> set (rows_of w CSV_PATH)" "month_key r0 \<noteq> currentMonthKey now"
    by blast
  from rollover_Inr(1) [OF ok this]
  show ?thesis by (simp add: rows_of_def set_sort_by_time set_partition_of)
qed





lemmas example_defs = scenario_world_def archived_world_def faulty_world_def early_fault_world_def
  july_world_def july_noon_def june_record_def july_record_def mid_june_record_def

lemmas number_eval = parseFloat_def [unfolded Let_def] parseInt_def [unfolded Let_def]
  is_space_def is_digit_def digit_val_def [unfolded Let_def] hex_val_def [unfolded Let_def]
  exponent_part_def [unfolded Let_def] overflows_def isNaN_def isFinite_def

lemma parseFloat_examples:
  "parseFloat ''NaN'' = NaN"
  "parseFloat ''0.06'' = Finite"
  by (simp_all add: number_eval)

subsection \<open>the append\<close>

lemma readFileSync_present:
  "files w p = Some rows \<Longrightarrow>
   readFileSync p w = (case io_step w of None \<Rightarrow> (Inl StorageIOError, w) | Some w1 \<Rightarrow> (Inr rows, w1))"
  by (simp add: readFileSync_def)

lemma same_hour_bucket:
  assumes "Date_parse a = Some t1" and "Date_parse b = Some t2" and "bucket t1 = bucket t2"
    and "tza = 0 \<or> toDateString tza (Some t1) = toDateString tza (Some t2)"
  shows "same_hour tza a b"
  using assms by (auto simp: same_hour_def getUTCHours_def toDateString_def bucket_def)

text \<open>The append on a store that exists and can be read.\<close>

lemma append_rate_present:
  assumes "files w CSV_PATH = Some rows" and "io_step w = Some w1"
  shows "append_rate tza stamp v w =
     (if rows \<noteq> [] \<and> same_hour tza (timestamp (last rows)) stamp then (Inr Skipped, w1)
      else (case writeRecords CSV_PATH True [\<lparr>timestamp = stamp, preRate = v\<rparr>] w1 of
              (Inl e, w3) \<Rightarrow> (Inl e, w3)
            | (Inr u, w3) \<Rightarrow> (Inr Written, w3)))"
  using assms by (simp add: append_rate_def existsSync_def readFileSync_present)

lemma append_rate_rows:
  "rows_of (snd (append_rate tza stamp v w)) CSV_PATH = rows_of w CSV_PATH
   \<or> rows_of (snd (append_rate tza stamp v w)) CSV_PATH
        = rows_of w CSV_PATH @ [\<lparr>timestamp = stamp, preRate = v\<rparr>]"
proof (cases "files w CSV_PATH")
  case None
  show ?thesis
  proof (cases "writeFileSync_header CSV_PATH w")
    case (Pair r1 w1)
    show ?thesis
    proof (cases r1)
      case (Inl e)
      with Pair None have "append_rate tza stamp v w = (Inl e, w1)" "w1 = w"
        by (simp_all add: append_rate_def existsSync_def writeFileSync_header_Inl)
      then show ?thesis by simp
    next
      case (Inr u)
      with Pair writeFileSync_header_Inr [of CSV_PATH w u w1]
      have f1: "files w1 CSV_PATH = Some []" by simp
      have r0: "rows_of w CSV_PATH = []" using None by (simp add: rows_of_def)
      have r1: "rows_of w1 CSV_PATH = []" using f1 by (simp add: rows_of_def)
      have run: "append_rate tza stamp v w =
          (case readFileSync CSV_PATH w1 of
             (Inl e, w2) \<Rightarrow> (Inl e, w2)
           | (Inr rows, w2) \<Rightarrow>
               if rows \<noteq> [] \<and> same_hour tza (timestamp (last rows)) stamp then (Inr Skipped, w2)
               else
                 (case writeRecords CSV_PATH True [\<lparr>timestamp = stamp, preRate = v\<rparr>] w2 of
                    (Inl e, w3) \<Rightarrow> (Inl e, w3)
                  | (Inr _, w3) \<Rightarrow> (Inr Written, w3)))"
        using Pair Inr None by (simp add: append_rate_def existsSync_def)
      show ?thesis
      proof (cases "io_step w1")
        case None
        with run f1 r0 r1 show ?thesis by (simp add: readFileSync_present)
      next
        case (Some w2)
        from io_step_Some [OF Some] r1 have r2: "rows_of w2 CSV_PATH = []" by (simp add: rows_of_def)
        obtain r3 w3 where wr: "writeRecords CSV_PATH True [\<lparr>timestamp = stamp, preRate = v\<rparr>] w2 = (r3, w3)"
          by (cases "writeRecords CSV_PATH True [\<lparr>timestamp = stamp, preRate = v\<rparr>] w2")
        show ?thesis
        proof (cases r3)
          case (Inl e)
          with wr have "w3 = w2" by (simp add: writeRecords_Inl)
          with run f1 Some wr Inl r0 r2 show ?thesis by (simp add: readFileSync_present)
        next
          case (Inr u')
          with wr writeRecords_append_Inr [of CSV_PATH _ w2 u' w3] r2
          have "rows_of w3 CSV_PATH = [\<lparr>timestamp = stamp, preRate = v\<rparr>]"
            by (simp add: rows_of_def)
          with run f1 Some wr Inr r0 show ?thesis by (simp add: readFileSync_present)
        qed
      qed
    qed
  qed
next
  case (Some rows)
  show ?thesis
  proof (cases "io_step w")
    case None
    with Some show ?thesis by (simp add: append_rate_def existsSync_def readFileSync_present)
  next
    case step: (Some w1)
    from io_step_Some [OF step] have r1: "rows_of w1 CSV_PATH = rows_of w CSV_PATH"
      by (simp add: rows_of_def)
    obtain r3 w3 where wr: "writeRecords CSV_PATH True [\<lparr>timestamp = stamp, preRate = v\<rparr>] w1 = (r3, w3)"
      by (cases "writeRecords CSV_PATH True [\<lparr>timestamp = stamp, preRate = v\<rparr>] w1")
    show ?thesis
    proof (cases r3)
      case (Inl e)
      with wr have "w3 = w1" by (simp add: writeRecords_Inl)
      with append_rate_present [OF Some step, of tza stamp v] wr Inl r1 show ?thesis by simp
    next
      case (Inr u')
      with wr writeRecords_append_Inr [of CSV_PATH _ w1 u' w3] r1
      have "rows_of w3 CSV_PATH = rows_of w CSV_PATH @ [\<lparr>timestamp = stamp, preRate = v\<rparr>]"
        by (simp add: rows_of_def)
      with append_rate_present [OF Some step, of tza stamp v] wr Inr r1 show ?thesis by simp
    qed
  qed
qed

lemma ascending_snoc:
  assumes "ascending rs" and "Date_parse (timestamp x) = Some t"
    and "rs \<noteq> [] \<longrightarrow> time_of (last rs) \<le> t"
  shows "ascending (rs @ [x])"
proof -
  from assms(1) have v: "list_all valid_time rs" and s: "sorted (map time_of rs)"
    by (simp_all add: ascending_sorted)
  have vx: "valid_time x" and tx: "time_of x = t"
    using assms(2) by (simp_all add: valid_time_def time_of_def)
  have "\<forall>y\<in>set rs. time_of y \<le> t"
  proof
    fix y assume y: "y \<in> set rs"
    then have ne: "rs \<noteq> []" by auto
    from y obtain i where i: "i < length rs" "rs ! i = y" by (auto simp: in_set_conv_nth)
    have "map time_of rs ! i \<le> map time_of rs ! (length rs - 1)"
      using s i ne by (intro sorted_nth_mono) auto
    with i ne have "time_of y \<le> time_of (last rs)" by (simp add: last_conv_nth)
    with assms(3) ne show "time_of y \<le> t" by simp
  qed
  with v s vx tx show ?thesis
    by (simp add: ascending_sorted sorted_append)
qed

subsection \<open>the history\<close>

lemma store_history_Inr:
  assumes "batch \<noteq> []" and "fst (store_history batch w) = Inr ()"
  shows "files (snd (store_history batch w)) = (files w)(CSV_PATH \<mapsto> sort_by_time batch)"
    and "written (snd (store_history batch w)) = written w @ [CSV_PATH]"
  using assms
  by (auto simp: store_history_def writeFileSync_rows_def split: option.splits dest: io_step_Some)

lemma store_history_total:
  "fst (store_history batch w) = (if batch \<noteq> [] \<and> budget w = Some 0 then Inl StorageIOError else Inr ())"
proof (cases "io_step w")
  case None
  then have "budget w = Some 0" by (simp add: io_step_None)
  with None show ?thesis by (simp add: store_history_def writeFileSync_rows_def)
next
  case (Some w1)
  then have "budget w \<noteq> Some 0" using io_step_None [of w] by simp
  with Some show ?thesis by (simp add: store_history_def writeFileSync_rows_def)
qed

lemma partition_valid:
  "list_all valid_time rows \<Longrightarrow> list_all valid_time (partition_of k rows)"
  by (simp add: partition_of_def list_all_iff)


lemmas more_example_defs = two_hours_world_def one_hour_world_def ahead_world_def
  good_response_def july_eleven_def candidate_stamp_def backfill_world_def late_batch_def
  spec_store_world_def spec_batch_def nan_history_def empty_world_def

lemma example_times:
  "Date_parse ''2025-07-01T10:05:00.000Z'' = Some 1751364300000"
  "Date_parse ''2025-07-01T11:05:00.000Z'' = Some 1751367900000"
  "Date_parse ''2025-07-01T10:30:00.000Z'' = Some 1751365800000"
  "Date_parse ''2025-07-01T12:30:00Z'' = Some 1751373000000"
  "Date_parse ''2025-07-01T11:00:00.000Z'' = Some 1751367600000"
  "Date_parse ''2025-07-01T00:00:00Z'' = Some 1751328000000"
  "Date_parse ''2025-07-01T01:00:00Z'' = Some 1751331600000"
  "Date_parse ''2025-07-01T05:00:00Z'' = Some 1751346000000"
  "Date_parse ''2025-07-01T00:00:00.000Z'' = Some 1751328000000"
  "Date_parse ''2025-07-01T12:59:59Z'' = Some 1751374799000"
  "Date_parse ''2025-06-30T23:00:00Z'' = Some 1751324400000"
  by (simp_all add: Date_parse_def fraction_Z_def digit_val_def [unfolded Let_def]
      days_from_civil_def [unfolded Let_def] msPerDay_def)

lemma example_buckets:
  "bucket 1751364300000 = (2025, 6, 1, 10)"
  "bucket 1751365800000 = (2025, 6, 1, 10)"
  "bucket 1751367900000 = (2025, 6, 1, 11)"
  "bucket 1751346000000 = (2025, 6, 1, 5)"
  "bucket 1751331600000 = (2025, 6, 1, 1)"
  by (simp_all add: bucket_def date_eval)

lemma example_stamps:
  "toISOString 1751367600000 = ''2025-07-01T11:00:00.000Z''"
  "toISOString 1751328000000 = ''2025-07-01T00:00:00.000Z''"
  "getMonthKey ''2025-07-01T12:30:00Z'' = ''2025-07''"
  "getMonthKey ''2025-07-01T11:00:00.000Z'' = ''2025-07''"
  by (simp_all add: date_eval)

lemmas append_eval = append_rate_def existsSync_def readFileSync_def io_step_def
  writeFileSync_header_def writeRecords_def same_hour_def getUTCHours_def toDateString_def
  HourFromTime_def rows_of_def CSV_PATH_def


lemma live_rejects_non_finite:
  assumes "code body = ''0''" and "data body = Some (v # rest)"
    and "isNaN (parseFloat v) \<or> \<not> isFinite (parseFloat v)"
  shows "fetch_and_append tza now (HttpBody body) w = (Inl ValidationError, w)"
  using assms by (simp add: fetch_and_append_def)

text \<open>Every store that a rollover writes is in ascending order.\<close>

lemma rollover_writes_ascending:
  assumes v: "list_all valid_time (rows_of w CSV_PATH)"
  shows "\<forall>p\<in>set (drop (length (written w)) (written (snd (performRollover now w)))).
           ascending (rows_of (snd (performRollover now w)) p)"
proof -
  obtain res w' where run: "performRollover now w = (res, w')"
    by (cases "performRollover now w")
  let ?rows = "rows_of w CSV_PATH"
  from rollover_effect [OF run] obtain alog llog where
    l: "written w' = written w @ alog @ llog" and ls: "set llog \<subseteq> {CSV_PATH}"
    and a: "\<forall>p\<in>set alog. files w' p = Some []
            \<or> (\<exists>k\<in>month_key ` set ?rows. files w' p = Some (sort_by_time (partition_of k ?rows)))"
    and c: "llog \<noteq> [] \<longrightarrow>
           (files w' CSV_PATH = Some []
              \<or> files w' CSV_PATH = Some (sort_by_time (partition_of (currentMonthKey now) ?rows)))"
    by blast
  have asc: "\<And>k. ascending (sort_by_time (partition_of k ?rows))"
    using v by (simp add: ascending_sort_by_time partition_valid)
  have "\<forall>p\<in>set (alog @ llog). ascending (rows_of w' p)"
  proof
    fix p assume "p \<in> set (alog @ llog)"
    then consider "p \<in> set alog" | "p \<in> set llog" by auto
    then show "ascending (rows_of w' p)"
    proof cases
      case 1
      with a have "files w' p = Some []
            \<or> (\<exists>k\<in>month_key ` set ?rows. files w' p = Some (sort_by_time (partition_of k ?rows)))"
        by blast
      then show ?thesis using asc by (auto simp: rows_of_def ascending_Nil)
    next
      case 2
      with ls have "p = CSV_PATH" "llog \<noteq> []" by auto
      with c asc show ?thesis by (auto simp: rows_of_def ascending_Nil)
    qed
  qed
  with l run show ?thesis by simp
qed

lemma append_rate_ascending:
  assumes "ascending (rows_of w CSV_PATH)" and "Date_parse stamp = Some t"
    and "rows_of w CSV_PATH \<noteq> [] \<longrightarrow> time_of (last (rows_of w CSV_PATH)) \<le> t"
  shows "ascending (rows_of (snd (append_rate tza stamp v w)) CSV_PATH)"
proof -
  have "ascending (rows_of w CSV_PATH @ [\<lparr>timestamp = stamp, preRate = v\<rparr>])"
    using assms by (intro ascending_snoc [where t = t]) simp_all
  with append_rate_rows [of tza stamp v w] assms(1) show ?thesis by auto
qed

lemma history_example_steps:
  "parseInt ''1751328000000'' = Some 1751328000000"
  by (simp add: number_eval)

lemma history_example_day:
  "YearFromTime 1751371200000 = 2025" "MonthFromTime 1751371200000 = 6"
  "DateFromTime 1751371200000 = 1" "HourFromTime 1751371200000 = 12"
  "YearFromTime 1751328000000 = 2025" "MonthFromTime 1751328000000 = 6"
  "DateFromTime 1751328000000 = 1"
  "YearFromTime 1751374799000 = 2025" "MonthFromTime 1751374799000 = 6"
  "DateFromTime 1751374799000 = 1"
  by (simp_all add: date_eval)

section \<open>The claims\<close>

subsection \<open>C1: what an archive holds after a rollover\<close>

text \<open>
  Counterexample to claim C1 as stated (after a rollover the archive of a month is the
  union of what it held and the month's partition, so that nothing it held is lost): the
  archive of June holds a record of the middle of June, the live store holds another June
  record and a July record, and the rollover runs in July and completes.  Afterwards the
  archive holds the live store's June record only; the record it held before is gone.
\<close>

theorem C1_archive_replaced_counterexample:
  "fst (performRollover july_noon archived_world) = Inr ()
   \<and> rows_of archived_world ''data/2025-06.csv'' = [mid_june_record]
   \<and> rows_of (snd (performRollover july_noon archived_world)) ''data/2025-06.csv'' = [june_record]
   \<and> mid_june_record \<notin> set (rows_of (snd (performRollover july_noon archived_world)) ''data/2025-06.csv'')"
  by (simp add: run_eval example_keys example_defs)

text \<open>
  Claim C1, amended: when a rollover completes, then for every month key other than the
  current one that occurs in the live store, the archive of that month holds exactly the
  live store's records of that month, in ascending order of time (a stable sort of the
  partition, nothing removed, nothing added); what the archive held before is replaced.
\<close>

theorem C1_archive_is_sorted_partition:
  assumes "fst (performRollover now w) = Inr ()"
    and "r \<in> set (rows_of w CSV_PATH)"
    and "month_key r \<noteq> currentMonthKey now"
  shows "files (snd (performRollover now w)) (archiveFilePath (month_key r))
           = Some (sort_by_time (partition_of (month_key r) (rows_of w CSV_PATH)))
         \<and> mset (rows_of (snd (performRollover now w)) (archiveFilePath (month_key r)))
           = mset (partition_of (month_key r) (rows_of w CSV_PATH))
         \<and> (list_all valid_time (partition_of (month_key r) (rows_of w CSV_PATH)) \<longrightarrow>
              ascending (rows_of (snd (performRollover now w)) (archiveFilePath (month_key r))))"
  using rollover_Inr(2) [OF assms] assms(2,3)
  by (simp add: rows_of_def mset_sort_by_time ascending_sort_by_time)

text \<open>Witness for C1: the rollover of the example above.\<close>

theorem C1_archive_is_sorted_partition_witness:
  "fst (performRollover july_noon archived_world) = Inr ()
   \<and> june_record \<in> set (rows_of archived_world CSV_PATH)
   \<and> month_key june_record \<noteq> currentMonthKey july_noon
   \<and> files (snd (performRollover july_noon archived_world)) (archiveFilePath ''2025-06'')
       = Some [june_record]"
proof -
  have a: "fst (performRollover july_noon archived_world) = Inr ()"
    by (simp add: run_eval example_keys example_defs)
  have b: "june_record \<in> set (rows_of archived_world CSV_PATH)"
    by (simp add: rows_of_def example_defs CSV_PATH_def)
  have c: "month_key june_record \<noteq> currentMonthKey july_noon"
    by (simp add: month_key_def currentMonthKey_def example_keys example_defs)
  have k: "month_key june_record = ''2025-06''"
    by (simp add: month_key_def example_keys example_defs)
  have p: "partition_of ''2025-06'' (rows_of archived_world CSV_PATH) = [june_record]"
    by (simp add: partition_of_def rows_of_def month_key_def example_keys example_defs CSV_PATH_def)
  have s: "sort_by_time [june_record] = [june_record]"
    by (simp add: sort_by_time_def sort_by_def)
  from C1_archive_is_sorted_partition [OF a b c] a b c show ?thesis
    by (simp add: k p s)
qed

subsection \<open>C2: what the history script leaves in the store\<close>

text \<open>
  Counterexample to claim C2 as stated (the store afterwards is the union of what it held
  and the batch, one record per hour bucket): the store holds a sample of 05:00, the batch
  a sample of 01:00 of the same day, so the two are in different buckets.  After the
  write the store holds the batch's record only.
\<close>

theorem C2_existing_rows_dropped_counterexample:
  "rows_of backfill_world CSV_PATH = [\<lparr>timestamp = ''2025-07-01T05:00:00Z'', preRate = ''0.05''\<rparr>]
   \<and> map_option bucket (Date_parse ''2025-07-01T05:00:00Z'') = Some (2025, 6, 1, 5)
   \<and> map_option bucket (Date_parse ''2025-07-01T01:00:00Z'') = Some (2025, 6, 1, 1)
   \<and> fst (store_history late_batch backfill_world) = Inr ()
   \<and> rows_of (snd (store_history late_batch backfill_world)) CSV_PATH = late_batch
   \<and> length (rows_of (snd (store_history late_batch backfill_world)) CSV_PATH) = 1"
  by (simp add: store_history_def writeFileSync_rows_def io_step_def sort_by_time_def sort_by_def
      rows_of_def CSV_PATH_def example_times example_buckets more_example_defs)

text \<open>
  Claim C2, amended: the history script replaces the store by the batch alone, sorted
  ascending by time with a stable sort, in one write of the whole file; the rows the store
  held are neither read nor kept, and records of the batch that share a bucket are all
  kept.  An empty batch leaves the store untouched.  For the store and the batch of the
  specification's example the result is the two records of the batch, in ascending order.
\<close>

theorem C2_backfill_overwrites_with_sorted_batch:
  "(batch \<noteq> [] \<and> fst (store_history batch w) = Inr () \<longrightarrow>
       files (snd (store_history batch w)) = (files w)(CSV_PATH \<mapsto> sort_by_time batch)
       \<and> mset (rows_of (snd (store_history batch w)) CSV_PATH) = mset batch
       \<and> (list_all valid_time batch \<longrightarrow> ascending (rows_of (snd (store_history batch w)) CSV_PATH)))
   \<and> (batch = [] \<longrightarrow> store_history batch w = (Inr (), w))
   \<and> fst (store_history batch w)
       = (if batch \<noteq> [] \<and> budget w = Some 0 then Inl StorageIOError else Inr ())
   \<and> rows_of (snd (store_history spec_batch spec_store_world)) CSV_PATH
       = [\<lparr>timestamp = ''2025-07-01T00:00:00Z'', preRate = ''0.06''\<rparr>,
          \<lparr>timestamp = ''2025-07-01T01:00:00Z'', preRate = ''0.07''\<rparr>]
   \<and> ascending (rows_of (snd (store_history spec_batch spec_store_world)) CSV_PATH)"
proof -
  have a: "batch \<noteq> [] \<and> fst (store_history batch w) = Inr () \<longrightarrow>
       files (snd (store_history batch w)) = (files w)(CSV_PATH \<mapsto> sort_by_time batch)
       \<and> mset (rows_of (snd (store_history batch w)) CSV_PATH) = mset batch
       \<and> (list_all valid_time batch \<longrightarrow> ascending (rows_of (snd (store_history batch w)) CSV_PATH))"
  proof
    assume h: "batch \<noteq> [] \<and> fst (store_history batch w) = Inr ()"
    then have "files (snd (store_history batch w)) = (files w)(CSV_PATH \<mapsto> sort_by_time batch)"
      by (simp add: store_history_Inr)
    then show "files (snd (store_history batch w)) = (files w)(CSV_PATH \<mapsto> sort_by_time batch)
       \<and> mset (rows_of (snd (store_history batch w)) CSV_PATH) = mset batch
       \<and> (list_all valid_time batch \<longrightarrow> ascending (rows_of (snd (store_history batch w)) CSV_PATH))"
      by (simp add: rows_of_def mset_sort_by_time ascending_sort_by_time)
  qed
  have b: "batch = [] \<longrightarrow> store_history batch w = (Inr (), w)"
    by (simp add: store_history_def)
  have c: "rows_of (snd (store_history spec_batch spec_store_world)) CSV_PATH
       = [\<lparr>timestamp = ''2025-07-01T00:00:00Z'', preRate = ''0.06''\<rparr>,
          \<lparr>timestamp = ''2025-07-01T01:00:00Z'', preRate = ''0.07''\<rparr>]"
    by (simp add: store_history_def writeFileSync_rows_def io_step_def sort_by_time_def sort_by_def
      compare_time_def rows_of_def CSV_PATH_def example_times more_example_defs)
  have d: "ascending [\<lparr>timestamp = ''2025-07-01T00:00:00Z'', preRate = ''0.06''\<rparr>,
          \<lparr>timestamp = ''2025-07-01T01:00:00Z'', preRate = ''0.07''\<rparr>]"
    by (simp add: ascending_def valid_time_def time_le_def example_times)
  from a b c d store_history_total [of batch w] show ?thesis by simp
qed

text \<open>Witness for C2: the store and the batch of the specification's example, and the empty
  batch.\<close>

theorem C2_backfill_overwrites_with_sorted_batch_witness:
  "spec_batch \<noteq> []
   \<and> fst (store_history spec_batch spec_store_world) = Inr ()
   \<and> list_all valid_time spec_batch
   \<and> files (snd (store_history spec_batch spec_store_world)) CSV_PATH = Some (sort_by_time spec_batch)
   \<and> mset (rows_of (snd (store_history spec_batch spec_store_world)) CSV_PATH) = mset spec_batch
   \<and> ascending (rows_of (snd (store_history spec_batch spec_store_world)) CSV_PATH)
   \<and> store_history [] spec_store_world = (Inr (), spec_store_world)"
proof -
  have a: "spec_batch \<noteq> []" "fst (store_history spec_batch spec_store_world) = Inr ()"
    "list_all valid_time spec_batch"
    by (simp_all add: store_history_total valid_time_def example_times more_example_defs)
  from C2_backfill_overwrites_with_sorted_batch [of spec_batch spec_store_world]
    C2_backfill_overwrites_with_sorted_batch [of "[]" spec_store_world] a
  show ?thesis by simp
qed

subsection \<open>C3: the duplicate check of the append\<close>

text \<open>
  Counterexample to claim C3 as stated (a candidate in the bucket of a record of the store
  is skipped, wherever that record stands): the store holds samples of 10:05 and 11:05,
  the candidate is of 10:30 of the same day, in the bucket of the first row.  The append
  compares with the last row only, writes the candidate, and the store has three rows.
\<close>

theorem C3_only_last_row_is_checked_counterexample:
  "rows_of two_hours_world CSV_PATH
     = [\<lparr>timestamp = ''2025-07-01T10:05:00.000Z'', preRate = ''0.05''\<rparr>,
        \<lparr>timestamp = ''2025-07-01T11:05:00.000Z'', preRate = ''0.05''\<rparr>]
   \<and> map_option bucket (Date_parse ''2025-07-01T10:05:00.000Z'') = Some (2025, 6, 1, 10)
   \<and> map_option bucket (Date_parse candidate_stamp) = Some (2025, 6, 1, 10)
   \<and> fst (append_rate 0 candidate_stamp ''0.06'' two_hours_world) = Inr Written
   \<and> length (rows_of (snd (append_rate 0 candidate_stamp ''0.06'' two_hours_world)) CSV_PATH) = 3"
  by (simp add: append_eval example_times example_buckets more_example_defs)

text \<open>
  Claim C3, amended: when the candidate's timestamp falls in the (UTC year, month, day,
  hour) bucket of the last row of the store, and the process runs in UTC or the two fall
  on the same local day, the append leaves every file as it is, makes no write call and
  reports that it skipped; only the last row is compared.
\<close>

theorem C3_same_hour_as_last_row_is_skipped:
  assumes "rows_of w CSV_PATH \<noteq> []"
    and "Date_parse (timestamp (last (rows_of w CSV_PATH))) = Some t1"
    and "Date_parse stamp = Some t2"
    and "bucket t1 = bucket t2"
    and "tza = 0 \<or> toDateString tza (Some t1) = toDateString tza (Some t2)"
    and "budget w \<noteq> Some 0"
  shows "fst (append_rate tza stamp v w) = Inr Skipped
         \<and> files (snd (append_rate tza stamp v w)) = files w
         \<and> written (snd (append_rate tza stamp v w)) = written w"
proof -
  from assms(1) obtain rows where f: "files w CSV_PATH = Some rows"
    by (cases "files w CSV_PATH") (simp_all add: rows_of_def)
  then have ro: "rows_of w CSV_PATH = rows" by (simp add: rows_of_def)
  from assms(6) obtain w1 where step: "io_step w = Some w1"
    using io_step_None [of w] by (cases "io_step w") simp_all
  have "same_hour tza (timestamp (last rows)) stamp"
    using assms(2,3,4,5) ro by (simp add: same_hour_bucket)
  with append_rate_present [OF f step, of tza stamp v] assms(1) ro io_step_Some [OF step]
  show ?thesis by simp
qed

text \<open>Witness for C3: a store whose only row is of 10:05, and a candidate of 10:30.\<close>

theorem C3_same_hour_as_last_row_is_skipped_witness:
  "rows_of one_hour_world CSV_PATH \<noteq> []
   \<and> Date_parse (timestamp (last (rows_of one_hour_world CSV_PATH))) = Some 1751364300000
   \<and> Date_parse candidate_stamp = Some 1751365800000
   \<and> bucket 1751364300000 = bucket 1751365800000
   \<and> budget one_hour_world \<noteq> Some 0
   \<and> fst (append_rate 0 candidate_stamp ''0.06'' one_hour_world) = Inr Skipped
   \<and> files (snd (append_rate 0 candidate_stamp ''0.06'' one_hour_world)) = files one_hour_world
   \<and> written (snd (append_rate 0 candidate_stamp ''0.06'' one_hour_world)) = written one_hour_world"
proof -
  have a: "rows_of one_hour_world CSV_PATH \<noteq> []"
    "Date_parse (timestamp (last (rows_of one_hour_world CSV_PATH))) = Some 1751364300000"
    "Date_parse candidate_stamp = Some 1751365800000"
    "budget one_hour_world \<noteq> Some 0"
    by (simp_all add: rows_of_def example_times more_example_defs CSV_PATH_def)
  have b: "bucket 1751364300000 = bucket 1751365800000"
    by (simp add: example_buckets)
  have c: "(0::int) = 0 \<or> toDateString 0 (Some 1751364300000) = toDateString 0 (Some 1751365800000)"
    by simp
  from C3_same_hour_as_last_row_is_skipped [OF a(1) a(2) a(3) b c a(4), of "''0.06''"] a b
  show ?thesis by simp
qed

subsection \<open>C4: every record in the store of its month\<close>



subsection \<open>C5: a second rollover changes nothing\<close>

text \<open>
  Claim C5: the rollover is idempotent.  When a rollover has completed and a second one
  follows in the same month with no new data in between, the second one writes no file:
  the content of every file after it is what it was after the first, and it completes
  unless its own read fails.
\<close>

theorem C5_rollover_idempotent:
  assumes "fst (performRollover now w) = Inr ()"
    and "currentMonthKey now' = currentMonthKey now"
  shows "files (snd (performRollover now' (snd (performRollover now w))))
           = files (snd (performRollover now w))
         \<and> written (snd (performRollover now' (snd (performRollover now w))))
           = written (snd (performRollover now w))
         \<and> (budget (snd (performRollover now w)) \<noteq> Some 0 \<longrightarrow>
              fst (performRollover now' (snd (performRollover now w))) = Inr ())"
proof -
  from rollover_live_current [OF assms(1)] assms(2)
  have "\<forall>r\<in>set (rows_of (snd (performRollover now w)) CSV_PATH). month_key r = currentMonthKey now'"
    by simp
  from rollover_unchanged_snd [OF this] show ?thesis by simp
qed

text \<open>Witness for C5: in the scenario the first rollover writes files, the second, one second
  later, writes none.\<close>

theorem C5_rollover_idempotent_witness:
  "fst (performRollover july_noon scenario_world) = Inr ()
   \<and> currentMonthKey (july_noon + 1000) = currentMonthKey july_noon
   \<and> budget (snd (performRollover july_noon scenario_world)) \<noteq> Some 0
   \<and> written (snd (performRollover july_noon scenario_world)) \<noteq> written scenario_world
   \<and> files (snd (performRollover (july_noon + 1000) (snd (performRollover july_noon scenario_world))))
       = files (snd (performRollover july_noon scenario_world))
   \<and> written (snd (performRollover (july_noon + 1000) (snd (performRollover july_noon scenario_world))))
       = written (snd (performRollover july_noon scenario_world))
   \<and> fst (performRollover (july_noon + 1000) (snd (performRollover july_noon scenario_world))) = Inr ()"
proof -
  have a: "fst (performRollover july_noon scenario_world) = Inr ()"
    "budget (snd (performRollover july_noon scenario_world)) \<noteq> Some 0"
    "written (snd (performRollover july_noon scenario_world)) \<noteq> written scenario_world"
    by (simp_all add: run_eval example_keys example_defs)
  have b: "currentMonthKey (july_noon + 1000) = currentMonthKey july_noon"
    by (simp add: currentMonthKey_def july_noon_def date_eval)
  from C5_rollover_idempotent [OF a(1) b] a b show ?thesis by simp
qed

subsection \<open>C6: the order of the writes of a rollover\<close>

text \<open>
  Counterexample to claim C6 as stated (when any file call fails the live store keeps its
  previous content, and every record can be recovered from the live store or an archive):
  in the scenario the read and the two calls that write the archive of June succeed,
  \<open>writeCsvData\<close> then writes the header line to the live store, and the call that writes
  the rows fails.  The rollover aborts; the live store holds the header only and the July
  record is in no file.
\<close>

theorem C6_live_store_truncated_counterexample:
  "fst (performRollover july_noon faulty_world) = Inl StorageIOError
   \<and> files faulty_world CSV_PATH = Some [june_record, july_record]
   \<and> files (snd (performRollover july_noon faulty_world)) CSV_PATH = Some []
   \<and> written (snd (performRollover july_noon faulty_world))
       = [''data/2025-06.csv'', ''data/2025-06.csv'', ''data/rates.csv'']
   \<and> files (snd (performRollover july_noon faulty_world)) ''data/2025-06.csv'' = Some [june_record]
   \<and> july_record \<noteq> june_record"
  by (simp add: run_eval example_keys example_defs)

text \<open>
  Claim C6, amended: in every rollover the write calls to archives come before those to
  the live store.  When no call has written the live store, its content is what it was:
  so it is when the read or a write to an archive fails.  When a call has written the
  live store, every record of another month is in its archive.  The rewrite of the live
  store is itself two calls, the header and then the rows: after a rollover that fails
  the live store has its previous content or the header only.
\<close>

theorem C6_live_store_written_last:
  "\<exists>alog llog.
      written (snd (performRollover now w)) = written w @ alog @ llog
      \<and> CSV_PATH \<notin> set alog \<and> set llog \<subseteq> {CSV_PATH}
      \<and> (llog = [] \<longrightarrow> files (snd (performRollover now w)) CSV_PATH = files w CSV_PATH)
      \<and> (llog \<noteq> [] \<longrightarrow>
            (\<forall>r\<in>set (rows_of w CSV_PATH). month_key r \<noteq> currentMonthKey now \<longrightarrow>
               files (snd (performRollover now w)) (archiveFilePath (month_key r))
                 = Some (sort_by_time (partition_of (month_key r) (rows_of w CSV_PATH)))))
      \<and> ((\<exists>e. fst (performRollover now w) = Inl e) \<longrightarrow>
            files (snd (performRollover now w)) CSV_PATH = files w CSV_PATH
            \<or> files (snd (performRollover now w)) CSV_PATH = Some [])"
proof -
  obtain res w' where run: "performRollover now w = (res, w')"
    by (cases "performRollover now w")
  from rollover_effect [OF run] obtain alog llog where
    "written w' = written w @ alog @ llog" "CSV_PATH \<notin> set alog" "set llog \<subseteq> {CSV_PATH}"
    "llog = [] \<longrightarrow> files w' CSV_PATH = files w CSV_PATH"
    "llog \<noteq> [] \<longrightarrow>
        (\<forall>r\<in>set (rows_of w CSV_PATH). month_key r \<noteq> currentMonthKey now \<longrightarrow>
           files w' (archiveFilePath (month_key r))
             = Some (sort_by_time (partition_of (month_key r) (rows_of w CSV_PATH))))"
    "(\<exists>e. res = Inl e) \<longrightarrow> llog = [] \<or> files w' CSV_PATH = Some []"
    by blast
  with run show ?thesis
    by (intro exI [of _ alog] exI [of _ llog]) auto
qed

text \<open>Witness for C6: in the scenario the third file call, the one that writes the rows of the
  archive, fails, and the live store is as it was.\<close>

theorem C6_live_store_written_last_witness:
  "fst (performRollover july_noon early_fault_world) = Inl StorageIOError
   \<and> written (snd (performRollover july_noon early_fault_world)) = [''data/2025-06.csv'']
   \<and> files (snd (performRollover july_noon early_fault_world)) CSV_PATH
       = files early_fault_world CSV_PATH"
proof -
  let ?w' = "snd (performRollover july_noon early_fault_world)"
  have a: "fst (performRollover july_noon early_fault_world) = Inl StorageIOError"
    "written ?w' = [''data/2025-06.csv'']" "written early_fault_world = []"
    by (simp_all add: run_eval example_keys example_defs)
  from C6_live_store_written_last [of july_noon early_fault_world] obtain alog llog where
    l: "written ?w' = written early_fault_world @ alog @ llog"
    and s: "set llog \<subseteq> {CSV_PATH}"
    and k: "llog = [] \<longrightarrow> files ?w' CSV_PATH = files early_fault_world CSV_PATH"
    by blast
  have "llog = []"
  proof (rule ccontr)
    assume "llog \<noteq> []"
    with s have "CSV_PATH \<in> set llog" by (cases llog) auto
    with l a have "CSV_PATH \<in> set [''data/2025-06.csv'']" by (metis Un_iff append_Nil set_append)
    then show False by (simp add: CSV_PATH_def)
  qed
  with k a show ?thesis by simp
qed

subsection \<open>C7: the order of the rows that are written\<close>

text \<open>
  Counterexample to claim C7 as stated (after every write the rows are in ascending order
  of time): the live store holds one sample, of 12:30, and is in ascending order; the
  clock reads 11:00 of the same day.  The fetch appends the new sample at the end, and
  the rows are no longer in ascending order.
\<close>

theorem C7_append_does_not_sort_counterexample:
  "ascending (rows_of ahead_world CSV_PATH)
   \<and> fst (fetchLendingRate 0 july_eleven july_eleven good_response ahead_world) = Inr Written
   \<and> rows_of (snd (fetchLendingRate 0 july_eleven july_eleven good_response ahead_world)) CSV_PATH
       = [\<lparr>timestamp = ''2025-07-01T12:30:00Z'', preRate = ''0.05''\<rparr>,
          \<lparr>timestamp = ''2025-07-01T11:00:00.000Z'', preRate = ''0.06''\<rparr>]
   \<and> \<not> ascending (rows_of (snd (fetchLendingRate 0 july_eleven july_eleven good_response ahead_world)) CSV_PATH)"
proof -
  have r: "performRollover july_eleven ahead_world = (Inr (), ahead_world)"
    by (simp add: run_eval example_stamps more_example_defs)
  have f: "fetchLendingRate 0 july_eleven july_eleven good_response ahead_world
             = append_rate 0 ''2025-07-01T11:00:00.000Z'' ''0.06'' ahead_world"
    by (simp add: fetchLendingRate_def r)
       (simp add: fetch_and_append_def good_response_def parseFloat_examples isNaN_def
          isFinite_def july_eleven_def example_stamps)
  show ?thesis
    unfolding f
    by (simp add: append_eval example_times ahead_world_def ascending_def valid_time_def time_le_def)
qed

text \<open>
  Claim C7, amended: when the timestamps of the live store are valid dates, every file
  that a rollover has written holds its rows in ascending order of time; so does the
  store that the history script has written from a batch of valid dates.  The append of
  a sample does not sort: the rows are in ascending order after it when they were before
  and the last row is not later than the sample.
\<close>

theorem C7_written_stores_are_sorted:
  "(list_all valid_time (rows_of w CSV_PATH) \<longrightarrow>
      (\<forall>p\<in>set (drop (length (written w)) (written (snd (performRollover now w)))).
         ascending (rows_of (snd (performRollover now w)) p)))
   \<and> (batch \<noteq> [] \<and> list_all valid_time batch \<and> fst (store_history batch w) = Inr () \<longrightarrow>
        ascending (rows_of (snd (store_history batch w)) CSV_PATH))
   \<and> (ascending (rows_of w CSV_PATH) \<and> Date_parse stamp = Some t
        \<and> (rows_of w CSV_PATH \<noteq> [] \<longrightarrow> time_of (last (rows_of w CSV_PATH)) \<le> t) \<longrightarrow>
        ascending (rows_of (snd (append_rate tza stamp v w)) CSV_PATH))"
proof (intro conjI impI)
  assume "list_all valid_time (rows_of w CSV_PATH)"
  then show "\<forall>p\<in>set (drop (length (written w)) (written (snd (performRollover now w)))).
         ascending (rows_of (snd (performRollover now w)) p)"
    by (rule rollover_writes_ascending)
next
  assume "batch \<noteq> [] \<and> list_all valid_time batch \<and> fst (store_history batch w) = Inr ()"
  then show "ascending (rows_of (snd (store_history batch w)) CSV_PATH)"
    by (simp add: store_history_Inr rows_of_def ascending_sort_by_time)
next
  assume "ascending (rows_of w CSV_PATH) \<and> Date_parse stamp = Some t
        \<and> (rows_of w CSV_PATH \<noteq> [] \<longrightarrow> time_of (last (rows_of w CSV_PATH)) \<le> t)"
  then show "ascending (rows_of (snd (append_rate tza stamp v w)) CSV_PATH)"
    by (simp add: append_rate_ascending)
qed

text \<open>Witness for C7: the rollover of the scenario, the batch of the specification's example,
  and the append of a sample of 11:00 after one of 10:05.\<close>

theorem C7_written_stores_are_sorted_witness:
  "list_all valid_time (rows_of scenario_world CSV_PATH)
   \<and> drop (length (written scenario_world)) (written (snd (performRollover july_noon scenario_world)))
       = [''data/2025-06.csv'', ''data/2025-06.csv'', ''data/rates.csv'', ''data/rates.csv'']
   \<and> ascending (rows_of (snd (performRollover july_noon scenario_world)) ''data/2025-06.csv'')
   \<and> ascending (rows_of (snd (performRollover july_noon scenario_world)) ''data/rates.csv'')
   \<and> spec_batch \<noteq> [] \<and> list_all valid_time spec_batch
   \<and> fst (store_history spec_batch spec_store_world) = Inr ()
   \<and> ascending (rows_of (snd (store_history spec_batch spec_store_world)) CSV_PATH)
   \<and> ascending (rows_of one_hour_world CSV_PATH)
   \<and> Date_parse later_stamp = Some 1751367600000
   \<and> time_of (last (rows_of one_hour_world CSV_PATH)) \<le> 1751367600000
   \<and> ascending (rows_of (snd (append_rate 0 later_stamp ''0.06'' one_hour_world)) CSV_PATH)"
proof -
  have a: "list_all valid_time (rows_of scenario_world CSV_PATH)"
    by (simp add: rows_of_def valid_time_def example_times example_defs CSV_PATH_def)
  have b: "drop (length (written scenario_world)) (written (snd (performRollover july_noon scenario_world)))
       = [''data/2025-06.csv'', ''data/2025-06.csv'', ''data/rates.csv'', ''data/rates.csv'']"
    by (simp add: run_eval example_keys example_defs)
  have c: "spec_batch \<noteq> []" "list_all valid_time spec_batch"
    "fst (store_history spec_batch spec_store_world) = Inr ()"
    by (simp_all add: store_history_total valid_time_def example_times more_example_defs)
  have d: "ascending (rows_of one_hour_world CSV_PATH)"
    "Date_parse later_stamp = Some 1751367600000"
    "time_of (last (rows_of one_hour_world CSV_PATH)) \<le> 1751367600000"
    by (simp_all add: rows_of_def ascending_def valid_time_def time_of_def later_stamp_def
        example_times more_example_defs CSV_PATH_def)
  from C7_written_stores_are_sorted [of scenario_world july_noon spec_batch _ _ _ _]
    a b c
  have e: "ascending (rows_of (snd (performRollover july_noon scenario_world)) ''data/2025-06.csv'')"
    "ascending (rows_of (snd (performRollover july_noon scenario_world)) ''data/rates.csv'')"
    by simp_all
  from C7_written_stores_are_sorted [of spec_store_world _ spec_batch _ _ _ _] c
  have f: "ascending (rows_of (snd (store_history spec_batch spec_store_world)) CSV_PATH)"
    by simp
  from C7_written_stores_are_sorted [of one_hour_world _ _ later_stamp 1751367600000 0 "''0.06''"] d
  have g: "ascending (rows_of (snd (append_rate 0 later_stamp ''0.06'' one_hour_world)) CSV_PATH)"
    by simp
  from a b c d e f g show ?thesis by simp
qed

subsection \<open>C8: what readCsvData returns\<close>

text \<open>
  Counterexample to claim C8 as stated (a row whose timestamp is no date or whose rate is
  not finite makes the load fail): the only row of the store has the timestamp
  \<open>not-a-date\<close> and the rate \<open>NaN\<close>, and \<open>readCsvData\<close> returns it.
\<close>

theorem C8_malformed_row_is_loaded_counterexample:
  "Date_parse (timestamp corrupt_row) = None
   \<and> parseFloat (preRate corrupt_row) = NaN
   \<and> files corrupt_world CSV_PATH = Some [corrupt_row]
   \<and> fst (readCsvData CSV_PATH corrupt_world) = Inr [corrupt_row]"
  by (simp add: corrupt_row_def corrupt_world_def parseFloat_examples Date_parse_def
      readCsvData_def existsSync_def io_step_def CSV_PATH_def)

text \<open>
  Claim C8, amended: \<open>readCsvData\<close> returns the empty list, and no error, when the file
  is missing.  When the file is there it returns every row as it is stored, in the order
  of the file, without looking at timestamp or rate; it fails only when the read itself
  fails.  It changes no file.
\<close>

theorem C8_load_returns_rows_as_stored:
  "(files w p = None \<longrightarrow> readCsvData p w = (Inr [], w))
   \<and> (\<forall>rows. files w p = Some rows \<longrightarrow>
         fst (readCsvData p w) = (if budget w = Some 0 then Inl StorageIOError else Inr rows)
         \<and> files (snd (readCsvData p w)) = files w
         \<and> written (snd (readCsvData p w)) = written w)"
proof (intro conjI impI allI)
  assume "files w p = None"
  then show "readCsvData p w = (Inr [], w)" by (rule readCsvData_missing)
next
  fix rows assume f: "files w p = Some rows"
  show "fst (readCsvData p w) = (if budget w = Some 0 then Inl StorageIOError else Inr rows)"
    by (cases "io_step w") (simp_all add: readCsvData_present [OF f] io_step_None [symmetric])
  show "files (snd (readCsvData p w)) = files w"
    by (cases "io_step w") (auto simp: readCsvData_present [OF f] dest: io_step_Some)
  show "written (snd (readCsvData p w)) = written w"
    by (cases "io_step w") (auto simp: readCsvData_present [OF f] dest: io_step_Some)
qed

text \<open>Witness for C8: a missing archive, the live store of the scenario, and a read that
  fails.\<close>

theorem C8_load_returns_rows_as_stored_witness:
  "files scenario_world ''data/2025-06.csv'' = None
   \<and> readCsvData ''data/2025-06.csv'' scenario_world = (Inr [], scenario_world)
   \<and> files scenario_world CSV_PATH = Some [june_record, july_record]
   \<and> fst (readCsvData CSV_PATH scenario_world) = Inr [june_record, july_record]
   \<and> files faulty_world CSV_PATH = Some [june_record, july_record]
   \<and> fst (readCsvData CSV_PATH (faulty_world\<lparr>budget := Some 0\<rparr>)) = Inl StorageIOError"
proof -
  have a: "files scenario_world ''data/2025-06.csv'' = None"
    "files scenario_world CSV_PATH = Some [june_record, july_record]"
    "files faulty_world CSV_PATH = Some [june_record, july_record]"
    "files (faulty_world\<lparr>budget := Some 0\<rparr>) CSV_PATH = Some [june_record, july_record]"
    "budget scenario_world \<noteq> Some 0" "budget (faulty_world\<lparr>budget := Some 0\<rparr>) = Some 0"
    by (simp_all add: example_defs CSV_PATH_def)
  from C8_load_returns_rows_as_stored [of scenario_world "''data/2025-06.csv''"]
    C8_load_returns_rows_as_stored [of scenario_world CSV_PATH]
    C8_load_returns_rows_as_stored [of "faulty_world\<lparr>budget := Some 0\<rparr>" CSV_PATH] a
  show ?thesis by simp
qed

subsection \<open>C9: rates that are not finite\<close>

text \<open>
  Claim C9 at the input where the code breaks it: on 2025-07-01 the history endpoint
  answers with one entry of that day whose rate is the text \<open>NaN\<close>.  The history script
  does not look at the rate; it completes and the store holds the entry.  (The script
  that fetches the latest rate rejects such a rate before it writes,
  see \<open>live_rejects_non_finite\<close>.)
\<close>

theorem C9_history_writes_a_NaN_rate:
  "parseFloat ''NaN'' = NaN
   \<and> isNaN (parseFloat ''NaN'')
   \<and> fst (history_fetchLendingRate 0 july_noon nan_history empty_world) = Inr ()
   \<and> rows_of (snd (history_fetchLendingRate 0 july_noon nan_history empty_world)) CSV_PATH
       = [\<lparr>timestamp = ''2025-07-01T00:00:00.000Z'', preRate = ''NaN''\<rparr>]"
proof -
  have e: "endDate_of 2025 ''07'' 1 12 1 = ''2025-07-01T12:59:59Z''"
    by (simp add: endDate_of_def String_int_def string_of_nat_small string_of_nat_big digit_chars
        replicate_small padStart0_def)
  have m: "padStart0 2 (String_int 7) = ''07''"
    by (simp add: String_int_def string_of_nat_small digit_chars replicate_small padStart0_def)
  have d: "fetch_days (endDate_of 2025 ''07'' 1 12) nan_history [1] []
          = Inr [\<lparr>timestamp = ''2025-07-01T00:00:00.000Z'', preRate = ''NaN''\<rparr>]"
    by (simp add: e fetchHistoricalRates_def nan_history_def
        history_example_steps Date_toISOString_def example_stamps same_utc_day_def
        example_times history_example_day sort_by_time_def sort_by_def)
  have "history_fetchLendingRate 0 july_noon nan_history empty_world
          = store_history [\<lparr>timestamp = ''2025-07-01T00:00:00.000Z'', preRate = ''NaN''\<rparr>] empty_world"
    by (simp add: history_fetchLendingRate_def [unfolded Let_def] july_noon_def history_example_day
        m d del: fetch_days.simps)
  then show ?thesis
    by (simp add: parseFloat_examples isNaN_def store_history_def writeFileSync_rows_def io_step_def
        sort_by_time_def sort_by_def rows_of_def empty_world_def)
qed

subsection \<open>C10: nothing to roll over, nothing written\<close>

text \<open>
  Claim C10: when every record of the live store belongs to the current month, the
  rollover makes no write call at all: no archive is created or changed and the live
  store is not rewritten, not even with the same content.  (This also holds for an empty
  or missing live store.)
\<close>

theorem C10_current_month_only_writes_nothing:
  assumes "\<forall>r\<in>set (rows_of w CSV_PATH). month_key r = currentMonthKey now"
  shows "written (snd (performRollover now w)) = written w
         \<and> files (snd (performRollover now w)) = files w
         \<and> (budget w \<noteq> Some 0 \<longrightarrow> fst (performRollover now w) = Inr ())"
  using rollover_unchanged_snd [OF assms] by simp

text \<open>Witness for C10: a live store that holds the July record, rolled over in July.\<close>

theorem C10_current_month_only_writes_nothing_witness:
  "rows_of july_world CSV_PATH = [july_record]
   \<and> month_key july_record = currentMonthKey july_noon
   \<and> budget july_world \<noteq> Some 0
   \<and> written (snd (performRollover july_noon july_world)) = written july_world
   \<and> files (snd (performRollover july_noon july_world)) = files july_world
   \<and> fst (performRollover july_noon july_world) = Inr ()"
proof -
  have a: "rows_of july_world CSV_PATH = [july_record]"
    "month_key july_record = currentMonthKey july_noon"
    "budget july_world \<noteq> Some 0"
    by (simp_all add: rows_of_def month_key_def currentMonthKey_def example_keys example_defs CSV_PATH_def)
  then have "\<forall>r\<in>set (rows_of july_world CSV_PATH). month_key r = currentMonthKey july_noon"
    by simp
  from C10_current_month_only_writes_nothing [OF this] a show ?thesis by simp
qed

end
